theory Spec2Isabelle
  imports Main "HOL-Library.AList" "HOL-Library.Sublist"
begin

section \<open>JSON objects as insertion-ordered dictionaries\<close>

text \<open>
  The scripts work on the tree that \<^verbatim>\<open>json.load\<close> returns. A JSON object is a Python
  \<^verbatim>\<open>dict\<close>: keys are unique and iteration follows insertion order. It is modelled
  as an association list: \<^const>\<open>map_of\<close> is \<^verbatim>\<open>d.get(k)\<close>, \<^const>\<open>AList.update\<close> is
  \<^verbatim>\<open>d[k] = v\<close> (an existing key keeps its position, a new key goes to the end),
  \<^const>\<open>AList.delete\<close> is \<^verbatim>\<open>del d[k]\<close>, and \<^verbatim>\<open>d.items()\<close> is the list itself.
\<close>

type_synonym ('k, 'v) dict = "('k \<times> 'v) list"

type_synonym 'op path_item = "(string, 'op) dict"

type_synonym 'op paths = "(string, 'op path_item) dict"

text \<open>The operation stored for a method under a path, if any.\<close>

definition operation_at :: "'op paths \<Rightarrow> string \<Rightarrow> string \<Rightarrow> 'op option" where
  "operation_at ps path method =
     (case map_of ps path of None \<Rightarrow> None | Some item \<Rightarrow> map_of item method)"

section \<open>Merging paths (\<^verbatim>\<open>merge_swagger_endpoints.py\<close>, \<^verbatim>\<open>add_assets_settings.py\<close>)\<close>

text \<open>
  A conflict entry is the path together with the set
  \<^verbatim>\<open>existing_methods.intersection(new_methods)\<close>; the source joins that set into one
  string, in the set's iteration order.
\<close>

type_synonym conflict = "string \<times> string set"

text \<open>
  \<^verbatim>\<open>for method, method_data in methods.items():
      if method not in existing_methods:
          swagger_data['paths'][path][method] = method_data
          merged_count += 1\<close>
  where \<^verbatim>\<open>existing_methods\<close> is the set taken before the loop.
\<close>

fun add_missing_methods ::
  "string set \<Rightarrow> (string \<times> 'op) list \<Rightarrow> 'op path_item \<times> nat \<Rightarrow> 'op path_item \<times> nat" where
  "add_missing_methods existing_methods [] (item, merged_count) = (item, merged_count)"
| "add_missing_methods existing_methods ((method, method_data) # rest) (item, merged_count) =
     (if method \<notin> existing_methods
      then add_missing_methods existing_methods rest
             (AList.update method method_data item, merged_count + 1)
      else add_missing_methods existing_methods rest (item, merged_count))"

text \<open>
  \<^verbatim>\<open>for method, method_data in methods.items():
      swagger_data['paths'][path][method] = method_data
      merged_count += 1\<close>
\<close>

fun add_all_methods ::
  "(string \<times> 'op) list \<Rightarrow> 'op path_item \<times> nat \<Rightarrow> 'op path_item \<times> nat" where
  "add_all_methods [] (item, merged_count) = (item, merged_count)"
| "add_all_methods ((method, method_data) # rest) (item, merged_count) =
     add_all_methods rest (AList.update method method_data item, merged_count + 1)"

text \<open>One iteration of the loop over \<^verbatim>\<open>additional_data['paths'].items()\<close>.\<close>

definition merge_path ::
  "string \<Rightarrow> 'op path_item \<Rightarrow> 'op paths \<times> conflict list \<times> nat
     \<Rightarrow> 'op paths \<times> conflict list \<times> nat" where
  "merge_path path methods st =
     (case st of (ps, conflicts, merged_count) \<Rightarrow>
        (case map_of ps path of
           Some item \<Rightarrow>
             (let existing_methods = set (map fst item);
                  new_methods = set (map fst methods);
                  conflicting_methods = existing_methods \<inter> new_methods
              in if conflicting_methods \<noteq> {}
                 then (case add_missing_methods existing_methods methods (item, merged_count) of
                         (item', n) \<Rightarrow>
                           (AList.update path item' ps,
                            conflicts @ [(path, conflicting_methods)], n))
                 else (case add_all_methods methods (item, merged_count) of
                         (item', n) \<Rightarrow> (AList.update path item' ps, conflicts, n)))
         | None \<Rightarrow>
             (AList.update path methods ps, conflicts, merged_count + length methods)))"

fun merge_loop ::
  "'op paths \<Rightarrow> 'op paths \<times> conflict list \<times> nat \<Rightarrow> 'op paths \<times> conflict list \<times> nat" where
  "merge_loop [] st = st"
| "merge_loop ((path, methods) # rest) st = merge_loop rest (merge_path path methods st)"

text \<open>
  The whole loop, started as the source starts it: \<^verbatim>\<open>conflicts = []\<close>,
  \<^verbatim>\<open>merged_count = 0\<close>. The first argument is the patch
  (\<^verbatim>\<open>additional_data['paths']\<close>), the second the base (\<^verbatim>\<open>swagger_data['paths']\<close>).
\<close>

definition merge_paths :: "'op paths \<Rightarrow> 'op paths \<Rightarrow> 'op paths \<times> conflict list \<times> nat" where
  "merge_paths patch base = merge_loop patch (base, [], 0)"


section \<open>Documents, files and strings\<close>

text \<open>
  A tag declaration of the top-level \<^verbatim>\<open>tags\<close> array, and the \<^verbatim>\<open>info\<close> object with its
  optional \<^verbatim>\<open>description\<close>. Values the scripts never look into have the opaque type
  \<open>'x\<close>.
\<close>

record tag =
  tag_name :: string
  tag_description :: string

record 'x info =
  info_description :: "string option"
  info_other :: "(string, 'x) dict"

text \<open>
  The loaded document. A top-level key that may be missing is an option: the scripts
  test \<^verbatim>\<open>'paths' in swagger_data\<close> or read \<^verbatim>\<open>swagger_data.get('paths', {})\<close>.
\<close>

record ('op, 'x) document =
  doc_paths :: "'op paths option"
  doc_tags :: "tag list option"
  doc_definitions :: "(string, 'x) dict option"
  doc_info :: "'x info option"
  doc_other :: "(string, 'x) dict"

text \<open>\<^verbatim>\<open>not swagger_data\<close>: a dictionary is falsy when it has no key.\<close>

definition is_empty_document :: "('op, 'x) document \<Rightarrow> bool" where
  "is_empty_document d =
     (doc_paths d = None \<and> doc_tags d = None \<and> doc_definitions d = None
      \<and> doc_info d = None \<and> doc_other d = [])"

text \<open>
  A file holds either text that \<^verbatim>\<open>json.load\<close> parses to a document or text it rejects.
  The file system maps names to files; \<^verbatim>\<open>json.dump\<close> to a name stores the document
  there. The clock value used in backup names is a parameter.
\<close>

datatype 'd stored = Json 'd | Malformed

type_synonym 'd filesystem = "string \<rightharpoonup> 'd stored"

text \<open>\<^verbatim>\<open>needle in haystack\<close> on strings.\<close>

fun is_substring :: "string \<Rightarrow> string \<Rightarrow> bool" where
  "is_substring needle [] = (needle = [])"
| "is_substring needle (c # cs) = (prefix needle (c # cs) \<or> is_substring needle cs)"

text \<open>\<^verbatim>\<open>s.replace(old, new, 1)\<close>: the leftmost occurrence of \<open>old\<close> is replaced.\<close>

fun replace_first :: "string \<Rightarrow> string \<Rightarrow> string \<Rightarrow> string" where
  "replace_first old new [] = (if old = [] then new else [])"
| "replace_first old new (c # cs) =
     (if prefix old (c # cs) then new @ drop (length old) (c # cs)
      else c # replace_first old new cs)"

text \<open>\<^verbatim>\<open>method.upper()\<close> on the ASCII letters method names are made of.\<close>

definition upper_char :: "char \<Rightarrow> char" where
  "upper_char c =
     (if 97 \<le> (of_char c :: nat) \<and> (of_char c :: nat) \<le> 122
      then char_of ((of_char c :: nat) - 32) else c)"

definition upper :: "string \<Rightarrow> string" where
  "upper s = map upper_char s"

text \<open>The hard-coded \<^verbatim>\<open>swagger_file\<close> of the scripts under \<^verbatim>\<open>docs/\<close>.\<close>

definition swagger_file :: string where
  "swagger_file =
     ''D:'' @ [CHR 0x5C] @ ''Project'' @ [CHR 0x5C] @ ''clone_app_akuntansi'' @ [CHR 0x5C]
     @ ''accounting_proj'' @ [CHR 0x5C] @ ''backend'' @ [CHR 0x5C] @ ''docs'' @ [CHR 0x5C]
     @ ''swagger.json''"

section \<open>Merging a whole document (\<^verbatim>\<open>merge_swagger_endpoints.py\<close>)\<close>

text \<open>
  \<^verbatim>\<open>existing_tag_names = {tag.get('name') for tag in swagger_data['tags'] ...}
  for tag in core_tags:
      if tag['name'] not in existing_tag_names:
          swagger_data['tags'].append(tag)\<close>
  The set of names is taken once, before the loop.
\<close>

fun append_missing_tags :: "string set \<Rightarrow> tag list \<Rightarrow> tag list \<Rightarrow> tag list" where
  "append_missing_tags existing_tag_names [] tags = tags"
| "append_missing_tags existing_tag_names (t # rest) tags =
     (if tag_name t \<notin> existing_tag_names
      then append_missing_tags existing_tag_names rest (tags @ [t])
      else append_missing_tags existing_tag_names rest tags)"

definition add_missing_tags :: "tag list \<Rightarrow> tag list \<Rightarrow> tag list" where
  "add_missing_tags new_tags tags = append_missing_tags (set (map tag_name tags)) new_tags tags"

definition core_tags :: "tag list" where
  "core_tags =
     [\<lparr>tag_name = ''Accounts'',
       tag_description = ''Chart of accounts management - Manajemen bagan akun (COA)''\<rparr>,
      \<lparr>tag_name = ''Products'',
       tag_description = ''Product and inventory management - Manajemen produk dan inventori''\<rparr>,
      \<lparr>tag_name = ''Assets'',
       tag_description =
         ''Fixed assets and depreciation management - Manajemen aset tetap dan depresiasi''\<rparr>,
      \<lparr>tag_name = ''Contacts'',
       tag_description =
         ''Customer, vendor, and employee contact management - Manajemen kontak pelanggan, vendor, dan karyawan''\<rparr>,
      \<lparr>tag_name = ''Users'',
       tag_description = ''User account and role management - Manajemen pengguna dan peran''\<rparr>,
      \<lparr>tag_name = ''Settings'',
       tag_description =
         ''System settings and configuration - Pengaturan sistem dan konfigurasi''\<rparr>]"

text \<open>
  \<^verbatim>\<open>if 'info' in swagger_data:
      if 'description' in swagger_data['info']:
          if 'dengan fitur lengkap CRUD' not in swagger_data['info']['description']:
              swagger_data['info']['description'] = (... + " Termasuk endpoint ...")\<close>
\<close>

definition update_info_description :: "'x info option \<Rightarrow> 'x info option" where
  "update_info_description i =
     (case i of
        None \<Rightarrow> None
      | Some block \<Rightarrow>
          (case info_description block of
             None \<Rightarrow> Some block
           | Some d \<Rightarrow>
               if \<not> is_substring ''dengan fitur lengkap CRUD'' d
               then Some (block\<lparr>info_description := Some (d @
                 '' Termasuk endpoint CRUD lengkap untuk akun, produk, aset, kontak, user, dan pengaturan sistem.'')\<rparr>)
               else Some block))"

text \<open>
  The document \<^verbatim>\<open>merge_swagger_endpoints\<close> saves, with the conflicts and the count it
  reports, from the two loaded documents. \<open>None\<close> is \<^verbatim>\<open>return False\<close> before any
  change: a document that is empty, or a patch without \<^verbatim>\<open>paths\<close>.
\<close>

definition merge_swagger_document ::
  "('op, 'x) document \<Rightarrow> ('op, 'x) document
     \<Rightarrow> (('op, 'x) document \<times> conflict list \<times> nat) option" where
  "merge_swagger_document swagger_data additional_data =
     (if is_empty_document swagger_data then None
      else if is_empty_document additional_data then None
      else (case doc_paths additional_data of
              None \<Rightarrow> None
            | Some patch \<Rightarrow>
                (case merge_paths patch
                        (case doc_paths swagger_data of None \<Rightarrow> [] | Some ps \<Rightarrow> ps) of
                   (merged, conflicts, merged_count) \<Rightarrow>
                     Some (swagger_data
                             \<lparr>doc_paths := Some merged,
                              doc_info := update_info_description (doc_info swagger_data),
                              doc_tags := Some (add_missing_tags core_tags
                                (case doc_tags swagger_data of None \<Rightarrow> [] | Some ts \<Rightarrow> ts))\<rparr>,
                           conflicts, merged_count))))"

section \<open>Adding invoice types (\<^verbatim>\<open>add_invoice_types_to_settings.py\<close>)\<close>

text \<open>
  \<^verbatim>\<open>for method, spec in methods.items():
      paths[path][method] = spec\<close>
\<close>

fun overwrite_methods :: "(string \<times> 'op) list \<Rightarrow> 'op path_item \<Rightarrow> 'op path_item" where
  "overwrite_methods [] item = item"
| "overwrite_methods ((method, spec) # rest) item =
     overwrite_methods rest (AList.update method spec item)"

text \<open>
  \<^verbatim>\<open>for path, methods in invoice_types_endpoints.items():
      if path in paths: (the loop above)
      else: paths[path] = methods\<close>
\<close>

fun overwrite_paths :: "'op paths \<Rightarrow> 'op paths \<Rightarrow> 'op paths" where
  "overwrite_paths [] ps = ps"
| "overwrite_paths ((path, methods) # rest) ps =
     (case map_of ps path of
        Some item \<Rightarrow> overwrite_paths rest (AList.update path (overwrite_methods methods item) ps)
      | None \<Rightarrow> overwrite_paths rest (AList.update path methods ps))"

text \<open>
  \<^verbatim>\<open>for name, definition in new_definitions.items():
      definitions[name] = definition\<close>
\<close>

fun add_definitions :: "(string, 'x) dict \<Rightarrow> (string, 'x) dict \<Rightarrow> (string, 'x) dict" where
  "add_definitions [] definitions = definitions"
| "add_definitions ((name, definition) # rest) definitions =
     add_definitions rest (AList.update name definition definitions)"

definition invoice_types_tag :: tag where
  "invoice_types_tag =
     \<lparr>tag_name = ''Invoice Types'',
      tag_description = ''Invoice types and numbering management''\<rparr>"

text \<open>
  \<^verbatim>\<open>tag_exists = any(tag.get('name') == 'Invoice Types' for tag in tags)
  if not tag_exists:
      tags.append(invoice_types_tag)\<close>
\<close>

definition add_invoice_types_tag :: "tag list \<Rightarrow> tag list" where
  "add_invoice_types_tag tags =
     (if \<not> list_ex (\<lambda>t. tag_name t = ''Invoice Types'') tags
      then tags @ [invoice_types_tag] else tags)"

text \<open>
  The document \<^verbatim>\<open>add_invoice_types_endpoints\<close> saves. The two literal tables of the
  script, \<^verbatim>\<open>invoice_types_endpoints\<close> and \<^verbatim>\<open>new_definitions\<close>, are parameters. Each
  section is read with \<^verbatim>\<open>swagger_data.get(key, default)\<close>: when the key is missing,
  the default that receives the additions is not part of the document that is saved.
\<close>

definition add_invoice_types_document ::
  "'op paths \<Rightarrow> (string, 'x) dict \<Rightarrow> ('op, 'x) document \<Rightarrow> ('op, 'x) document" where
  "add_invoice_types_document invoice_types_endpoints new_definitions swagger_data =
     swagger_data
       \<lparr>doc_paths := map_option (overwrite_paths invoice_types_endpoints) (doc_paths swagger_data),
        doc_definitions :=
          map_option (add_definitions new_definitions) (doc_definitions swagger_data),
        doc_tags := map_option add_invoice_types_tag (doc_tags swagger_data)\<rparr>"

section \<open>Renaming a path prefix (\<^verbatim>\<open>fix_tax_accounts_endpoints.py\<close>)\<close>

definition wrong_prefix :: string where
  "wrong_prefix = ''/api/v1/settings/tax-accounts''"

definition correct_prefix :: string where
  "correct_prefix = ''/api/v1/tax-accounts''"

text \<open>
  \<^verbatim>\<open>for old_path, path_data in paths.items():
      if old_path.startswith(wrong_prefix):
          new_path = old_path.replace(wrong_prefix, correct_prefix, 1)
          new_paths[new_path] = path_data
          fixed_endpoints.append((old_path, new_path))
      else:
          new_paths[old_path] = path_data\<close>
  The state is \<^verbatim>\<open>new_paths\<close> and \<^verbatim>\<open>fixed_endpoints\<close>.
\<close>

fun rewrite_loop ::
  "string \<Rightarrow> string \<Rightarrow> 'op paths \<Rightarrow> 'op paths \<times> (string \<times> string) list
     \<Rightarrow> 'op paths \<times> (string \<times> string) list" where
  "rewrite_loop old new [] st = st"
| "rewrite_loop old new ((old_path, path_data) # rest) (new_paths, fixed_endpoints) =
     (if prefix old old_path
      then rewrite_loop old new rest
             (AList.update (replace_first old new old_path) path_data new_paths,
              fixed_endpoints @ [(old_path, replace_first old new old_path)])
      else rewrite_loop old new rest
             (AList.update old_path path_data new_paths, fixed_endpoints))"

definition rewrite_prefix ::
  "string \<Rightarrow> string \<Rightarrow> 'op paths \<Rightarrow> 'op paths \<times> (string \<times> string) list" where
  "rewrite_prefix old new ps = rewrite_loop old new ps ([], [])"

text \<open>
  The whole script on the file system: nothing is written when no path has the wrong
  prefix; otherwise the loaded document goes to the backup, then the renamed one to
  \<^verbatim>\<open>swagger_file\<close>. The boolean is the function's return value.
\<close>

definition fix_tax_accounts_endpoints ::
  "string \<Rightarrow> ('op, 'x) document filesystem \<Rightarrow> bool \<times> ('op, 'x) document filesystem" where
  "fix_tax_accounts_endpoints now fs =
     (case fs swagger_file of
        Some (Json swagger_data) \<Rightarrow>
          (let ps = (case doc_paths swagger_data of None \<Rightarrow> [] | Some ps \<Rightarrow> ps);
               endpoints_to_fix = filter (prefix wrong_prefix) (map fst ps)
           in if endpoints_to_fix = [] then (True, fs)
              else (let backup_file = swagger_file @ ''.backup_tax_accounts_fix_'' @ now;
                        fs1 = fs(backup_file \<mapsto> Json swagger_data);
                        new_paths = fst (rewrite_prefix wrong_prefix correct_prefix ps)
                    in (True,
                        fs1(swagger_file \<mapsto> Json (swagger_data\<lparr>doc_paths := Some new_paths\<rparr>)))))
      | _ \<Rightarrow> (False, fs))"

section \<open>Pruning whole paths\<close>

text \<open>
  \<^verbatim>\<open>remove_unused_swagger_endpoints.py\<close>:
  \<^verbatim>\<open>for endpoint in unused_endpoints:
      if endpoint in swagger_data['paths']:
          del swagger_data['paths'][endpoint]
          removed_count_yaml += 1\<close>
\<close>

fun remove_endpoints :: "string list \<Rightarrow> 'op paths \<times> nat \<Rightarrow> 'op paths \<times> nat" where
  "remove_endpoints [] st = st"
| "remove_endpoints (endpoint # rest) (ps, removed_count) =
     (if endpoint \<in> set (map fst ps)
      then remove_endpoints rest (AList.delete endpoint ps, removed_count + 1)
      else remove_endpoints rest (ps, removed_count))"

definition unused_endpoints :: "string list" where
  "unused_endpoints =
     [''/journal-entries/auto-generate/purchase'',
      ''/journal-entries/auto-generate/sale'',
      ''/journal-entries/{id}/post'',
      ''/journal-entries/{id}/reverse'',
      ''/journal-entries/summary'',
      ''/accounts/{account_id}/journal-entries'',
      ''/api/admin/check-cashbank-gl-links'',
      ''/api/admin/fix-cashbank-gl-links'',
      ''/api/monitoring/balance-health'',
      ''/api/monitoring/balance-sync'',
      ''/api/monitoring/discrepancies'',
      ''/api/monitoring/fix-discrepancies'',
      ''/api/monitoring/sync-status'',
      ''/monitoring/api-usage/analytics'',
      ''/monitoring/api-usage/reset'',
      ''/monitoring/api-usage/stats'',
      ''/monitoring/api-usage/top'',
      ''/monitoring/api-usage/unused'',
      ''/journal-drilldown'',
      ''/journal-drilldown/accounts'',
      ''/journal-drilldown/entries'',
      ''/journal-drilldown/entries/{id}'',
      ''/api/payments/debug/recent'',
      ''/api/payments/analytics'',
      ''/api/payments/export/excel'',
      ''/api/payments/report/pdf'',
      ''/api/payments/{id}/pdf'',
      ''/api/payments'',
      ''/api/payments/payable'',
      ''/api/payments/receivable'',
      ''/api/payments/{id}'',
      ''/api/reports/enhanced/financial-metrics'',
      ''/api/reports/enhanced/profit-loss'',
      ''/api/reports/enhanced/profit-loss-comparison'',
      ''/api/v1/admin/security/alerts'',
      ''/api/v1/admin/security/alerts/{id}/acknowledge'',
      ''/api/v1/admin/security/cleanup'',
      ''/api/v1/admin/security/config'',
      ''/api/v1/admin/security/incidents'',
      ''/api/v1/admin/security/incidents/{id}'',
      ''/api/v1/admin/security/incidents/{id}/resolve'',
      ''/api/v1/admin/security/ip-whitelist'',
      ''/api/v1/admin/security/metrics'']"

text \<open>
  The block under \<^verbatim>\<open>if 'paths' in swagger_data:\<close>, on the document: the loop above,
  started with \<^verbatim>\<open>removed_count_yaml = 0\<close>; without the key nothing is done.
\<close>

definition remove_endpoints_document ::
  "string list \<Rightarrow> ('op, 'x) document \<Rightarrow> ('op, 'x) document \<times> nat" where
  "remove_endpoints_document targets swagger_data =
     (case doc_paths swagger_data of
        None \<Rightarrow> (swagger_data, 0)
      | Some ps \<Rightarrow>
          (case remove_endpoints targets (ps, 0) of
             (ps', n) \<Rightarrow> (swagger_data\<lparr>doc_paths := Some ps'\<rparr>, n)))"

text \<open>
  The YAML document \<^verbatim>\<open>remove_unused_endpoints\<close> writes back, with its count: after the
  pruning, \<^verbatim>\<open>info\<close> is created if it is missing and the note is appended to its
  description. \<open>today\<close> is the date the script stamps into the note.
\<close>

definition cleanup_note :: "string \<Rightarrow> string" where
  "cleanup_note today =
     [CHR 0x0A, CHR 0x0A]
     @ ''NOTE: Internal/unused endpoints have been removed based on frontend usage analysis performed on ''
     @ today @ '' .''"

definition remove_unused_document ::
  "string \<Rightarrow> ('op, 'x) document \<Rightarrow> ('op, 'x) document \<times> nat" where
  "remove_unused_document today swagger_data =
     (case remove_endpoints_document unused_endpoints swagger_data of
        (pruned, removed_count_yaml) \<Rightarrow>
          (let block = (case doc_info pruned of
                          None \<Rightarrow> \<lparr>info_description = None, info_other = []\<rparr>
                        | Some i \<Rightarrow> i);
               original_description =
                 (case info_description block of None \<Rightarrow> [] | Some d \<Rightarrow> d)
           in (pruned\<lparr>doc_info :=
                 Some (block\<lparr>info_description :=
                   Some (original_description @ cleanup_note today)\<rparr>)\<rparr>,
               removed_count_yaml)))"

text \<open>
  \<^verbatim>\<open>cleanup_invalid_endpoints.py\<close> and \<^verbatim>\<open>cleanup_invalid_tax_accounts.py\<close>:
  \<^verbatim>\<open>for endpoint in invalid_endpoints:
      if endpoint in paths:
          del paths[endpoint]
          removed_endpoints.append(endpoint)\<close>
\<close>

fun remove_invalid ::
  "string list \<Rightarrow> 'op paths \<times> string list \<Rightarrow> 'op paths \<times> string list" where
  "remove_invalid [] st = st"
| "remove_invalid (endpoint # rest) (ps, removed_endpoints) =
     (if endpoint \<in> set (map fst ps)
      then remove_invalid rest (AList.delete endpoint ps, removed_endpoints @ [endpoint])
      else remove_invalid rest (ps, removed_endpoints))"

definition invalid_endpoints :: "string list" where
  "invalid_endpoints = [''/api/v1/settings/accounting'']"

definition invalid_tax_accounts_endpoints :: "string list" where
  "invalid_tax_accounts_endpoints =
     [''/api/v1/tax-accounts/all'', ''/api/v1/tax-accounts/available-accounts'']"

text \<open>
  The loop on the document. \<^verbatim>\<open>paths = swagger_data.get('paths', {})\<close> is the document's
  own dictionary when the key is there, so the deletions are made inside
  \<^verbatim>\<open>swagger_data\<close>; without the key the loop works on an empty dictionary.
\<close>

definition remove_invalid_document ::
  "string list \<Rightarrow> ('op, 'x) document \<Rightarrow> ('op, 'x) document \<times> string list" where
  "remove_invalid_document targets loaded =
     (case remove_invalid targets
             (case doc_paths loaded of None \<Rightarrow> [] | Some ps \<Rightarrow> ps, []) of
        (ps', removed_endpoints) \<Rightarrow>
          (case doc_paths loaded of
             None \<Rightarrow> loaded
           | Some ps \<Rightarrow> loaded\<lparr>doc_paths := Some ps'\<rparr>,
           removed_endpoints))"

text \<open>
  Both cleanup scripts have the same body, up to the list of targets and the suffix
  of the backup's name: load, run the loop, and when something was removed write the
  backup and then the file, both from \<^verbatim>\<open>swagger_data\<close> as the loop left it. The
  boolean is the function's return value.
\<close>

definition cleanup_run ::
  "string list \<Rightarrow> string \<Rightarrow> string \<Rightarrow> ('op, 'x) document filesystem
     \<Rightarrow> bool \<times> ('op, 'x) document filesystem" where
  "cleanup_run targets backup_suffix now fs =
     (case fs swagger_file of
        Some (Json loaded) \<Rightarrow>
          (case remove_invalid_document targets loaded of
             (swagger_data, removed_endpoints) \<Rightarrow>
               if removed_endpoints \<noteq> []
               then (let backup_file = swagger_file @ backup_suffix @ now;
                         fs1 = fs(backup_file \<mapsto> Json swagger_data)
                     in (True, fs1(swagger_file \<mapsto> Json swagger_data)))
               else (True, fs))
      | _ \<Rightarrow> (False, fs))"

definition cleanup_swagger ::
  "string \<Rightarrow> ('op, 'x) document filesystem \<Rightarrow> bool \<times> ('op, 'x) document filesystem" where
  "cleanup_swagger now fs = cleanup_run invalid_endpoints ''.backup_cleanup_'' now fs"

definition cleanup_invalid_tax_accounts ::
  "string \<Rightarrow> ('op, 'x) document filesystem \<Rightarrow> bool \<times> ('op, 'x) document filesystem" where
  "cleanup_invalid_tax_accounts now fs =
     cleanup_run invalid_tax_accounts_endpoints ''.backup_cleanup_tax_accounts_'' now fs"

section \<open>Pruning methods (\<^verbatim>\<open>fix_settings_endpoints.py\<close>)\<close>

definition correct_settings_endpoints :: "(string, string list) dict" where
  "correct_settings_endpoints =
     [(''/api/v1/settings'', [''GET'', ''PUT'']),
      (''/api/v1/settings/company'', [''PUT'']),
      (''/api/v1/settings/system'', [''PUT'']),
      (''/api/v1/settings/company/logo'', [''POST'']),
      (''/api/v1/settings/reset'', [''POST'']),
      (''/api/v1/settings/validation-rules'', [''GET'']),
      (''/api/v1/settings/history'', [''GET''])]"

text \<open>
  The first loop only collects what is wrong:
  \<^verbatim>\<open>for method in existing_methods:
      if method.upper() not in correct_methods:
          incorrect_endpoints.append(f"{method.upper()} {path}")\<close>
  and \<^verbatim>\<open>incorrect_endpoints.append(f"UNKNOWN {path}")\<close> for a settings path that is not
  in the table.
\<close>

fun find_incorrect :: "'op paths \<Rightarrow> string list" where
  "find_incorrect [] = []"
| "find_incorrect ((path, path_data) # rest) =
     (if prefix ''/api/v1/settings'' path
      then (case map_of correct_settings_endpoints path of
              Some correct_methods \<Rightarrow>
                map (\<lambda>method. upper method @ '' '' @ path)
                  (filter (\<lambda>method. upper method \<notin> set correct_methods) (map fst path_data))
            | None \<Rightarrow> [''UNKNOWN '' @ path])
      else [])
     @ find_incorrect rest"

text \<open>
  \<^verbatim>\<open>for method in existing_methods:
      if method.upper() not in correct_methods:
          del path_data[method]
          fixed_endpoints.append(f"{method.upper()} {path}")\<close>
  where \<^verbatim>\<open>existing_methods = list(path_data.keys())\<close> is taken before the loop.
\<close>

fun remove_incorrect_methods ::
  "string \<Rightarrow> string list \<Rightarrow> string list \<Rightarrow> 'op path_item \<times> string list
     \<Rightarrow> 'op path_item \<times> string list" where
  "remove_incorrect_methods path correct_methods [] st = st"
| "remove_incorrect_methods path correct_methods (method # rest) (path_data, fixed_endpoints) =
     (if upper method \<notin> set correct_methods
      then remove_incorrect_methods path correct_methods rest
             (AList.delete method path_data, fixed_endpoints @ [upper method @ '' '' @ path])
      else remove_incorrect_methods path correct_methods rest (path_data, fixed_endpoints))"

text \<open>
  The second loop over \<^verbatim>\<open>paths.items()\<close>: each path item is edited in place, so every
  path keeps its position, and a settings path that is not in the table is left as it
  is.
\<close>

fun fix_settings_loop :: "'op paths \<Rightarrow> string list \<Rightarrow> 'op paths \<times> string list" where
  "fix_settings_loop [] fixed_endpoints = ([], fixed_endpoints)"
| "fix_settings_loop ((path, path_data) # rest) fixed_endpoints =
     (case (if prefix ''/api/v1/settings'' path
            then (case map_of correct_settings_endpoints path of
                    Some correct_methods \<Rightarrow>
                      remove_incorrect_methods path correct_methods (map fst path_data)
                        (path_data, fixed_endpoints)
                  | None \<Rightarrow> (path_data, fixed_endpoints))
            else (path_data, fixed_endpoints)) of
        (path_data', fixed') \<Rightarrow>
          (case fix_settings_loop rest fixed' of
             (rest', fixed'') \<Rightarrow> ((path, path_data') # rest', fixed'')))"

text \<open>
  The paths \<^verbatim>\<open>fix_settings_endpoints\<close> saves, with its list of removed methods; \<open>None\<close>
  when the first loop finds nothing and the script returns without writing.
\<close>

definition fix_settings_paths :: "'op paths \<Rightarrow> ('op paths \<times> string list) option" where
  "fix_settings_paths ps =
     (if find_incorrect ps = [] then None else Some (fix_settings_loop ps []))"

section \<open>Tags of operations (\<^verbatim>\<open>fix_swagger_display.py\<close>)\<close>

text \<open>
  What sits under a method key: a JSON object with an optional \<^verbatim>\<open>tags\<close> list and other
  fields, or some other JSON value, which the script skips
  (\<^verbatim>\<open>isinstance(method_data, dict)\<close>).
\<close>

datatype 'x operation =
    NotObject 'x
  | Operation (op_tags: "string list option") (op_fields: "(string, 'x) dict")

text \<open>
  \<^verbatim>\<open>if 'tags' not in method_data:
      method_data['tags'] = ['Assets']
      assets_endpoints_fixed += 1
  elif 'Assets' not in method_data.get('tags', []):
      if not method_data['tags']:
          method_data['tags'] = ['Assets']
      else:
          method_data['tags'].append('Assets')
      assets_endpoints_fixed += 1\<close>
  The result is the operation and the new value of the counter.
\<close>

fun ensure_tag :: "string \<Rightarrow> 'x operation \<Rightarrow> nat \<Rightarrow> 'x operation \<times> nat" where
  "ensure_tag t (NotObject v) fixed = (NotObject v, fixed)"
| "ensure_tag t (Operation None others) fixed = (Operation (Some [t]) others, fixed + 1)"
| "ensure_tag t (Operation (Some ts) others) fixed =
     (if t \<notin> set ts
      then (if ts = [] then Operation (Some [t]) others else Operation (Some (ts @ [t])) others,
            fixed + 1)
      else (Operation (Some ts) others, fixed))"

text \<open>\<^verbatim>\<open>for method, method_data in methods.items(): ...\<close>\<close>

fun ensure_tag_methods ::
  "string \<Rightarrow> 'x operation path_item \<Rightarrow> nat \<Rightarrow> 'x operation path_item \<times> nat" where
  "ensure_tag_methods t [] fixed = ([], fixed)"
| "ensure_tag_methods t ((method, method_data) # rest) fixed =
     (case ensure_tag t method_data fixed of
        (method_data', fixed') \<Rightarrow>
          (case ensure_tag_methods t rest fixed' of
             (rest', fixed'') \<Rightarrow> ((method, method_data') # rest', fixed'')))"

text \<open>
  The loop over \<^verbatim>\<open>paths.items()\<close>; the state is \<^verbatim>\<open>assets_endpoints_fixed\<close> and
  \<^verbatim>\<open>settings_endpoints_fixed\<close>.
\<close>

fun fix_display_tags ::
  "'x operation paths \<Rightarrow> nat \<times> nat \<Rightarrow> 'x operation paths \<times> nat \<times> nat" where
  "fix_display_tags [] (assets_fixed, settings_fixed) = ([], assets_fixed, settings_fixed)"
| "fix_display_tags ((path, methods) # rest) (assets_fixed, settings_fixed) =
     (if is_substring ''/assets'' path
      then (case ensure_tag_methods ''Assets'' methods assets_fixed of
              (methods', a') \<Rightarrow>
                (case fix_display_tags rest (a', settings_fixed) of
                   (rest', a'', s'') \<Rightarrow> ((path, methods') # rest', a'', s'')))
      else if is_substring ''/settings'' path
      then (case ensure_tag_methods ''Settings'' methods settings_fixed of
              (methods', s') \<Rightarrow>
                (case fix_display_tags rest (assets_fixed, s') of
                   (rest', a'', s'') \<Rightarrow> ((path, methods') # rest', a'', s'')))
      else (case fix_display_tags rest (assets_fixed, settings_fixed) of
              (rest', a'', s'') \<Rightarrow> ((path, methods) # rest', a'', s'')))"

section \<open>Notions used in the proofs\<close>

text \<open>
  A document covers a patch when every path of the patch is in the document with at
  least the patch's methods: the state a merge of that patch leaves behind.
\<close>

definition covers :: "'op paths \<Rightarrow> 'op paths \<Rightarrow> bool" where
  "covers ps patch =
     (\<forall>(p, pm) \<in> set patch. \<exists>item. map_of ps p = Some item \<and> fst ` set pm \<subseteq> fst ` set item)"

text \<open>One conflict for each path of the patch that has methods, listing all of them.\<close>

definition all_conflicts :: "'op paths \<Rightarrow> conflict list" where
  "all_conflicts patch =
     map (\<lambda>(p, methods). (p, set (map fst methods)))
       (filter (\<lambda>(p, methods). methods \<noteq> []) patch)"

section \<open>Properties of the merge\<close>

lemma map_of_Some_key: "map_of item m = Some x \<Longrightarrow> m \<in> set (map fst item)"
  by (metis map_of_eq_None_iff option.distinct(1) set_map)

lemma add_missing_keep:
  "m \<in> ex \<Longrightarrow> map_of (fst (add_missing_methods ex ms (item, n))) m = map_of item m"
  by (induction ms arbitrary: item n) (auto simp: update_conv')

lemma add_all_keep:
  "m \<notin> fst ` set ms \<Longrightarrow> map_of (fst (add_all_methods ms (item, n))) m = map_of item m"
  by (induction ms arbitrary: item n) (auto simp: update_conv')

text \<open>One iteration never changes an operation that is already there.\<close>

lemma merge_path_keeps:
  assumes "operation_at ps p m = Some x"
  shows "operation_at (fst (merge_path path methods (ps, cs, n))) p m = Some x"
proof (cases "map_of ps path")
  case None
  with assms show ?thesis
    by (auto simp: merge_path_def operation_at_def update_conv' split: option.splits)
next
  case (Some item)
  show ?thesis
  proof (cases "p = path")
    case False
    with assms Some show ?thesis
      by (auto simp: merge_path_def operation_at_def update_conv' Let_def
               split: option.splits prod.splits)
  next
    case True
    with assms Some have mx: "map_of item m = Some x"
      by (simp add: operation_at_def)
    then have mk: "m \<in> set (map fst item)"
      by (rule map_of_Some_key)
    show ?thesis
    proof (cases "set (map fst item) \<inter> set (map fst methods) = {}")
      case True
      with mk have "m \<notin> fst ` set methods" by auto
      from add_all_keep[OF this, of item n] mx Some \<open>p = path\<close> True show ?thesis
        by (auto simp: merge_path_def operation_at_def update_conv' Let_def split: prod.splits)
    next
      case False
      from add_missing_keep[OF mk, of methods item n] mx Some \<open>p = path\<close> False show ?thesis
        by (auto simp: merge_path_def operation_at_def update_conv' Let_def split: prod.splits)
    qed
  qed
qed

lemma merge_loop_keeps:
  "operation_at ps p m = Some x
   \<Longrightarrow> operation_at (fst (merge_loop patch (ps, cs, n))) p m = Some x"
proof (induction patch arbitrary: ps cs n)
  case Nil
  then show ?case by simp
next
  case (Cons e patch)
  obtain path methods where e: "e = (path, methods)"
    by (cases e)
  obtain ps' cs' n' where st: "merge_path path methods (ps, cs, n) = (ps', cs', n')"
    by (cases "merge_path path methods (ps, cs, n)")
  from merge_path_keeps[OF Cons.prems, of path methods cs n] st
  have "operation_at ps' p m = Some x" by simp
  from Cons.IH[OF this] e st show ?case by simp
qed

lemma merge_path_paths_keep:
  "p \<in> fst ` set ps \<Longrightarrow> p \<in> fst ` set (fst (merge_path path methods (ps, cs, n)))"
  by (auto simp: merge_path_def Let_def dom_update split: option.splits prod.splits)

lemma merge_loop_paths_keep:
  "p \<in> fst ` set ps \<Longrightarrow> p \<in> fst ` set (fst (merge_loop patch (ps, cs, n)))"
proof (induction patch arbitrary: ps cs n)
  case Nil
  then show ?case by simp
next
  case (Cons e patch)
  obtain path methods where e: "e = (path, methods)"
    by (cases e)
  obtain ps' cs' n' where st: "merge_path path methods (ps, cs, n) = (ps', cs', n')"
    by (cases "merge_path path methods (ps, cs, n)")
  from merge_path_paths_keep[OF Cons.prems, of path methods cs n] st
  have "p \<in> fst ` set ps'" by simp
  from Cons.IH[OF this] e st show ?case by simp
qed

lemma merge_path_conflicts_grow:
  "c \<in> set cs \<Longrightarrow> c \<in> set (fst (snd (merge_path path methods (ps, cs, n))))"
  by (auto simp: merge_path_def Let_def split: option.splits prod.splits)

lemma merge_loop_conflicts_grow:
  "c \<in> set cs \<Longrightarrow> c \<in> set (fst (snd (merge_loop patch (ps, cs, n))))"
proof (induction patch arbitrary: ps cs n)
  case Nil
  then show ?case by simp
next
  case (Cons e patch)
  obtain path methods where e: "e = (path, methods)"
    by (cases e)
  obtain ps' cs' n' where st: "merge_path path methods (ps, cs, n) = (ps', cs', n')"
    by (cases "merge_path path methods (ps, cs, n)")
  from merge_path_conflicts_grow[OF Cons.prems, of path methods ps n] st
  have "c \<in> set cs'" by simp
  from Cons.IH[OF this] e st show ?case by simp
qed

lemma merge_path_records_conflict:
  assumes "operation_at ps path m = Some x" and "m \<in> fst ` set methods"
  shows "\<exists>ms. (path, ms) \<in> set (fst (snd (merge_path path methods (ps, cs, n)))) \<and> m \<in> ms"
proof -
  from assms(1) obtain item where it: "map_of ps path = Some item"
    and mx: "map_of item m = Some x"
    by (auto simp: operation_at_def split: option.splits)
  from mx have "m \<in> set (map fst item)"
    by (rule map_of_Some_key)
  with assms(2) have "m \<in> set (map fst item) \<inter> set (map fst methods)"
    by simp
  then show ?thesis using it
    by (auto simp: merge_path_def Let_def split: prod.splits)
qed

lemma merge_loop_records_conflict:
  assumes "operation_at ps p m = Some x" and "(p, methods) \<in> set patch"
    and "m \<in> fst ` set methods"
  shows "\<exists>ms. (p, ms) \<in> set (fst (snd (merge_loop patch (ps, cs, n)))) \<and> m \<in> ms"
  using assms
proof (induction patch arbitrary: ps cs n)
  case Nil
  then show ?case by simp
next
  case (Cons e patch)
  obtain path pm where e: "e = (path, pm)"
    by (cases e)
  obtain ps' cs' n' where st: "merge_path path pm (ps, cs, n) = (ps', cs', n')"
    by (cases "merge_path path pm (ps, cs, n)")
  from merge_path_keeps[OF Cons.prems(1), of path pm cs n] st
  have keep: "operation_at ps' p m = Some x" by simp
  show ?case
  proof (cases "e = (p, methods)")
    case True
    with e have "path = p" "pm = methods" by simp_all
    with merge_path_records_conflict[OF Cons.prems(1) Cons.prems(3), of cs n] st
    obtain ms where "(p, ms) \<in> set cs'" "m \<in> ms" by auto
    with merge_loop_conflicts_grow[of "(p, ms)" cs' patch ps' n'] e st show ?thesis
      by auto
  next
    case False
    with Cons.prems(2) have "(p, methods) \<in> set patch" by simp
    from Cons.IH[OF keep this Cons.prems(3)] e st show ?thesis by simp
  qed
qed

text \<open>
  Claim C1. The merge only adds, and the base wins: every path of the base is a path of
  the merged document; every operation the base has under a path and method is still
  the operation stored there after the merge, so the patch's value is never copied over
  it; and a method that the base and the patch both have under a path is in the method
  set of a conflict recorded for that path.
\<close>

theorem merge_additive_base_wins:
  assumes "merge_paths patch base = (merged, conflicts, merged_count)"
  shows "(\<forall>p. p \<in> fst ` set base \<longrightarrow> p \<in> fst ` set merged)
       \<and> (\<forall>p m x. operation_at base p m = Some x \<longrightarrow> operation_at merged p m = Some x)
       \<and> (\<forall>p m x methods. operation_at base p m = Some x \<and> (p, methods) \<in> set patch
              \<and> m \<in> fst ` set methods
            \<longrightarrow> (\<exists>ms. (p, ms) \<in> set conflicts \<and> m \<in> ms))"
proof (intro conjI allI impI)
  fix p assume "p \<in> fst ` set base"
  from merge_loop_paths_keep[OF this, of patch "[]" 0] assms show "p \<in> fst ` set merged"
    by (simp add: merge_paths_def)
next
  fix p m x assume "operation_at base p m = Some x"
  from merge_loop_keeps[OF this, of patch "[]" 0] assms
  show "operation_at merged p m = Some x"
    by (simp add: merge_paths_def)
next
  fix p m x methods
  assume "operation_at base p m = Some x \<and> (p, methods) \<in> set patch
            \<and> m \<in> fst ` set methods"
  then have a: "operation_at base p m = Some x" "(p, methods) \<in> set patch"
    "m \<in> fst ` set methods" by simp_all
  from merge_loop_records_conflict[OF a, of "[]" 0] assms
  show "\<exists>ms. (p, ms) \<in> set conflicts \<and> m \<in> ms"
    by (simp add: merge_paths_def)
qed

text \<open>
  The theorem at a base with \<^verbatim>\<open>get\<close> under \<^verbatim>\<open>/api/v1/settings\<close> and a patch that brings
  another \<^verbatim>\<open>get\<close> and a \<^verbatim>\<open>put\<close> for that path, and a new path.
\<close>

theorem merge_additive_base_wins_witness:
  "merge_paths
     [(''/api/v1/settings'', [(''get'', 2::nat), (''put'', 3)]),
      (''/api/v1/assets'', [(''get'', 4)])]
     [(''/api/v1/settings'', [(''get'', 1::nat)])]
   = ([(''/api/v1/settings'', [(''get'', 1), (''put'', 3)]), (''/api/v1/assets'', [(''get'', 4)])],
      [(''/api/v1/settings'', {''get''})], 2)
   \<and> operation_at [(''/api/v1/settings'', [(''get'', 1::nat)])] ''/api/v1/settings'' ''get''
       = Some 1
   \<and> operation_at
        [(''/api/v1/settings'', [(''get'', 1), (''put'', 3)]),
         (''/api/v1/assets'', [(''get'', 4)])]
        ''/api/v1/settings'' ''get'' = Some (1::nat)
   \<and> (\<exists>ms. (''/api/v1/settings'', ms) \<in> set [(''/api/v1/settings'', {''get''})]
          \<and> ''get'' \<in> ms)"
proof -
  have run: "merge_paths
     [(''/api/v1/settings'', [(''get'', 2::nat), (''put'', 3)]),
      (''/api/v1/assets'', [(''get'', 4)])]
     [(''/api/v1/settings'', [(''get'', 1::nat)])]
   = ([(''/api/v1/settings'', [(''get'', 1), (''put'', 3)]), (''/api/v1/assets'', [(''get'', 4)])],
      [(''/api/v1/settings'', {''get''})], 2)"
    by (simp add: merge_paths_def merge_path_def Let_def)
  have base: "operation_at [(''/api/v1/settings'', [(''get'', 1::nat)])]
                ''/api/v1/settings'' ''get'' = Some 1"
    by (simp add: operation_at_def)
  from merge_additive_base_wins[OF run] base run show ?thesis
    by simp
qed

section \<open>Merging the same patch again\<close>

lemma add_missing_keys:
  "fst ` set (fst (add_missing_methods ex ms (item, n))) = fst ` set item \<union> (fst ` set ms - ex)"
proof (induction ms arbitrary: item n)
  case Nil
  then show ?case by simp
next
  case (Cons e ms)
  obtain a b where e: "e = (a, b)" by (cases e)
  show ?case
  proof (cases "a \<in> ex")
    case True
    with Cons.IH[of item n] e show ?thesis by (simp add: insert_Diff_if)
  next
    case False
    with Cons.IH[of "AList.update a b item" "n + 1"] e show ?thesis
      by (simp add: dom_update insert_Diff_if)
  qed
qed

lemma add_all_keys:
  "fst ` set (fst (add_all_methods ms (item, n))) = fst ` set item \<union> fst ` set ms"
proof (induction ms arbitrary: item n)
  case Nil
  then show ?case by simp
next
  case (Cons e ms)
  obtain a b where e: "e = (a, b)" by (cases e)
  with Cons.IH[of "AList.update a b item" "n + 1"] show ?case
    by (simp add: dom_update)
qed

lemma add_missing_noop:
  "fst ` set ms \<subseteq> ex \<Longrightarrow> add_missing_methods ex ms (item, n) = (item, n)"
  by (induction ms arbitrary: item n) auto

lemma merge_path_grows:
  assumes "map_of ps p = Some item"
  shows "\<exists>item'. map_of (fst (merge_path path methods (ps, cs, n))) p = Some item' \<and> fst ` set item \<subseteq> fst ` set item'"
proof (cases "p = path")
  case False
  with assms show ?thesis
    by (auto simp: merge_path_def Let_def update_conv' split: option.splits prod.splits)
next
  case True
  show ?thesis
  proof (cases "set (map fst item) \<inter> set (map fst methods) = {}")
    case e: True
    obtain i' n' where r: "add_all_methods methods (item, n) = (i', n')" by (cases "add_all_methods methods (item, n)")
    with add_all_keys[of methods item n] have "fst ` set item \<subseteq> fst ` set i'" by auto
    with assms True e r show ?thesis
      by (simp add: merge_path_def Let_def update_conv')
  next
    case e: False
    obtain i' n' where r: "add_missing_methods (set (map fst item)) methods (item, n) = (i', n')"
      by (cases "add_missing_methods (set (map fst item)) methods (item, n)")
    with add_missing_keys[of "set (map fst item)" methods item n] have "fst ` set item \<subseteq> fst ` set i'" by auto
    with assms True e r show ?thesis
      by (simp add: merge_path_def Let_def update_conv')
  qed
qed

lemma merge_path_covers_entry:
  "\<exists>item'. map_of (fst (merge_path path methods (ps, cs, n))) path = Some item' \<and> fst ` set methods \<subseteq> fst ` set item'"
proof (cases "map_of ps path")
  case None
  then show ?thesis by (simp add: merge_path_def update_conv')
next
  case (Some item)
  show ?thesis
  proof (cases "set (map fst item) \<inter> set (map fst methods) = {}")
    case e: True
    obtain i' n' where r: "add_all_methods methods (item, n) = (i', n')" by (cases "add_all_methods methods (item, n)")
    with add_all_keys[of methods item n] have "fst ` set methods \<subseteq> fst ` set i'" by auto
    with Some e r show ?thesis
      by (simp add: merge_path_def Let_def update_conv')
  next
    case e: False
    obtain i' n' where r: "add_missing_methods (set (map fst item)) methods (item, n) = (i', n')"
      by (cases "add_missing_methods (set (map fst item)) methods (item, n)")
    with add_missing_keys[of "set (map fst item)" methods item n] have "fst ` set methods \<subseteq> fst ` set i'" by auto
    with Some e r show ?thesis
      by (simp add: merge_path_def Let_def update_conv')
  qed
qed

lemma merge_loop_grows:
  "map_of ps p = Some item \<Longrightarrow> K \<subseteq> fst ` set item \<Longrightarrow>
   \<exists>item'. map_of (fst (merge_loop patch (ps, cs, n))) p = Some item' \<and> K \<subseteq> fst ` set item'"
proof (induction patch arbitrary: ps cs n item)
  case Nil then show ?case by simp
next
  case (Cons e patch)
  obtain path methods where e: "e = (path, methods)" by (cases e)
  obtain ps' cs' n' where st: "merge_path path methods (ps, cs, n) = (ps', cs', n')" by (cases "merge_path path methods (ps, cs, n)")
  from merge_path_grows[OF Cons.prems(1), of path methods cs n] st
  obtain i' where i': "map_of ps' p = Some i'" "fst ` set item \<subseteq> fst ` set i'" by auto
  with Cons.prems(2) have "K \<subseteq> fst ` set i'" by blast
  from Cons.IH[OF i'(1) this] e st show ?case by simp
qed

lemma merge_loop_covers: "covers (fst (merge_loop patch (ps, cs, n))) patch"
proof (induction patch arbitrary: ps cs n)
  case Nil then show ?case by (simp add: covers_def)
next
  case (Cons e patch)
  obtain path methods where e: "e = (path, methods)" by (cases e)
  obtain ps' cs' n' where st: "merge_path path methods (ps, cs, n) = (ps', cs', n')" by (cases "merge_path path methods (ps, cs, n)")
  from merge_path_covers_entry[of path methods ps cs n] st
  obtain i' where i': "map_of ps' path = Some i'" "fst ` set methods \<subseteq> fst ` set i'" by auto
  from merge_loop_grows[OF i', of patch cs' n']
  have "\<exists>item'. map_of (fst (merge_loop patch (ps', cs', n'))) path = Some item' \<and> fst ` set methods \<subseteq> fst ` set item'" .
  with Cons.IH[of ps' cs' n'] e st show ?case by (simp add: covers_def)
qed

lemma merge_path_covered:
  assumes "map_of ps path = Some item" "fst ` set methods \<subseteq> fst ` set item"
  shows "merge_path path methods (ps, cs, n) = (ps, cs @ (if methods = [] then [] else [(path, set (map fst methods))]), n)"
proof (cases "methods = []")
  case True
  with assms show ?thesis by (simp add: merge_path_def update_triv)
next
  case False
  then have ne: "fst ` set methods \<noteq> {}" by simp
  from assms(2) have eq: "set (map fst item) \<inter> set (map fst methods) = set (map fst methods)" by auto
  from assms(2) have "add_missing_methods (set (map fst item)) methods (item, n) = (item, n)"
    by (intro add_missing_noop) simp
  with assms(1) False ne eq show ?thesis by (simp add: merge_path_def Let_def update_triv)
qed

lemma merge_loop_covered:
  "covers ps patch \<Longrightarrow> merge_loop patch (ps, cs, n) = (ps, cs @ all_conflicts patch, n)"
proof (induction patch arbitrary: cs)
  case Nil then show ?case by (simp add: all_conflicts_def)
next
  case (Cons e patch)
  obtain path methods where e: "e = (path, methods)" by (cases e)
  from Cons.prems e obtain item where it: "map_of ps path = Some item" "fst ` set methods \<subseteq> fst ` set item"
    by (auto simp: covers_def)
  from Cons.prems have c: "covers ps patch" by (simp add: covers_def)
  from merge_path_covered[OF it, of cs n] Cons.IH[OF c] e show ?case
    by (simp add: all_conflicts_def)
qed

lemma merge_path_conflict_origin:
  assumes "c \<in> set (fst (snd (merge_path path methods (ps, cs, n))))"
  shows "c \<in> set cs \<or> (fst c = path \<and> snd c \<subseteq> fst ` set methods \<and> snd c \<noteq> {})"
proof (cases "map_of ps path")
  case None
  with assms show ?thesis by (simp add: merge_path_def)
next
  case (Some item)
  show ?thesis
  proof (cases "set (map fst item) \<inter> set (map fst methods) = {}")
    case True
    with assms Some show ?thesis
      by (simp add: merge_path_def Let_def split: prod.splits)
  next
    case False
    with assms Some have "c \<in> set cs \<or> c = (path, set (map fst item) \<inter> set (map fst methods))"
      by (auto simp: merge_path_def Let_def split: prod.splits)
    then show ?thesis
    proof
      assume "c \<in> set cs"
      then show ?thesis by simp
    next
      assume c: "c = (path, set (map fst item) \<inter> set (map fst methods))"
      have "set (map fst item) \<inter> set (map fst methods) \<subseteq> fst ` set methods" by simp
      with c False show ?thesis by simp
    qed
  qed
qed

lemma merge_loop_conflict_origin:
  "c \<in> set (fst (snd (merge_loop patch (ps, cs, n))))
   \<Longrightarrow> c \<in> set cs \<or> (\<exists>methods. (fst c, methods) \<in> set patch \<and> snd c \<subseteq> fst ` set methods \<and> snd c \<noteq> {})"
proof (induction patch arbitrary: ps cs n)
  case Nil then show ?case by simp
next
  case (Cons e patch)
  obtain path pm where e: "e = (path, pm)" by (cases e)
  obtain ps' cs' n' where st: "merge_path path pm (ps, cs, n) = (ps', cs', n')" by (cases "merge_path path pm (ps, cs, n)")
  from Cons.prems e st have "c \<in> set (fst (snd (merge_loop patch (ps', cs', n'))))" by simp
  from Cons.IH[OF this] show ?case
  proof
    assume "c \<in> set cs'"
    with merge_path_conflict_origin[of c path pm ps cs n] st e show ?thesis by auto
  next
    assume "\<exists>methods. (fst c, methods) \<in> set patch \<and> snd c \<subseteq> fst ` set methods \<and> snd c \<noteq> {}"
    then show ?thesis by auto
  qed
qed

text \<open>
  Claim C2, as the code has it. Merging the same patch into the result of a merge adds
  nothing (the count is 0) and returns the same paths, but its conflicts are not those
  of the first merge: every path of the patch that has methods is now a conflict that
  lists all of them. Each conflict of the first merge is contained in one of these.
\<close>

theorem merge_again_adds_nothing:
  assumes "merge_paths patch base = (merged, conflicts, merged_count)"
  shows "merge_paths patch merged =
           (merged,
            map (\<lambda>(p, methods). (p, set (map fst methods)))
              (filter (\<lambda>(p, methods). methods \<noteq> []) patch),
            0)
       \<and> (\<forall>(p, ms) \<in> set conflicts.
            \<exists>ms'. (p, ms') \<in> set (fst (snd (merge_paths patch merged))) \<and> ms \<subseteq> ms')"
proof
  from merge_loop_covers[of patch base "[]" 0] assms have "covers merged patch"
    by (simp add: merge_paths_def)
  from merge_loop_covered[OF this, of "[]" 0]
  show again: "merge_paths patch merged =
           (merged,
            map (\<lambda>(p, methods). (p, set (map fst methods)))
              (filter (\<lambda>(p, methods). methods \<noteq> []) patch),
            0)"
    by (simp add: merge_paths_def all_conflicts_def)
  show "\<forall>(p, ms) \<in> set conflicts.
            \<exists>ms'. (p, ms') \<in> set (fst (snd (merge_paths patch merged))) \<and> ms \<subseteq> ms'"
  proof (clarify)
    fix p ms assume "(p, ms) \<in> set conflicts"
    with assms have "(p, ms) \<in> set (fst (snd (merge_loop patch (base, [], 0))))"
      by (simp add: merge_paths_def)
    from merge_loop_conflict_origin[OF this]
    obtain methods where m: "(p, methods) \<in> set patch" "ms \<subseteq> fst ` set methods" "ms \<noteq> {}"
      by auto
    then have "methods \<noteq> []" by auto
    with m(1) have "(p, set (map fst methods)) \<in> set (fst (snd (merge_paths patch merged)))"
      by (force simp: again)
    with m(2) show "\<exists>ms'. (p, ms') \<in> set (fst (snd (merge_paths patch merged))) \<and> ms \<subseteq> ms'"
      by auto
  qed
qed

text \<open>
  The theorem at a base with \<^verbatim>\<open>get\<close> under \<^verbatim>\<open>/api/v1/settings\<close> and a patch with \<^verbatim>\<open>get\<close>
  and \<^verbatim>\<open>put\<close> for it and a new path: the first merge reports one conflict, the second
  reports two and adds nothing.
\<close>

theorem merge_again_adds_nothing_witness:
  "merge_paths
     [(''/api/v1/settings'', [(''get'', 2::nat), (''put'', 3)]),
      (''/api/v1/assets'', [(''get'', 4)])]
     [(''/api/v1/settings'', [(''get'', 1::nat)])]
   = ([(''/api/v1/settings'', [(''get'', 1), (''put'', 3)]), (''/api/v1/assets'', [(''get'', 4)])],
      [(''/api/v1/settings'', {''get''})], 2)
   \<and> merge_paths
     [(''/api/v1/settings'', [(''get'', 2::nat), (''put'', 3)]),
      (''/api/v1/assets'', [(''get'', 4)])]
     [(''/api/v1/settings'', [(''get'', 1), (''put'', 3)]), (''/api/v1/assets'', [(''get'', 4)])]
   = ([(''/api/v1/settings'', [(''get'', 1), (''put'', 3)]), (''/api/v1/assets'', [(''get'', 4)])],
      [(''/api/v1/settings'', {''get'', ''put''}), (''/api/v1/assets'', {''get''})], 0)"
proof -
  have run: "merge_paths
     [(''/api/v1/settings'', [(''get'', 2::nat), (''put'', 3)]),
      (''/api/v1/assets'', [(''get'', 4)])]
     [(''/api/v1/settings'', [(''get'', 1::nat)])]
   = ([(''/api/v1/settings'', [(''get'', 1), (''put'', 3)]), (''/api/v1/assets'', [(''get'', 4)])],
      [(''/api/v1/settings'', {''get''})], 2)"
    by (simp add: merge_paths_def merge_path_def Let_def)
  from merge_again_adds_nothing[OF run, THEN conjunct1] run show ?thesis
    by simp
qed

text \<open>
  Claim C2 as it is stated fails on scenario A of the specification: the first merge
  has no conflict, the second has two, while its count is 0.
\<close>

theorem merge_idempotent_counterexample:
  "snd (snd (merge_paths
     [(''/api/v1/settings'', [(''put'', 2::nat)]), (''/api/v1/assets'', [(''get'', 3)])]
     (fst (merge_paths
        [(''/api/v1/settings'', [(''put'', 2::nat)]), (''/api/v1/assets'', [(''get'', 3)])]
        [(''/api/v1/settings'', [(''get'', 1::nat)])])))) = 0
   \<and> set (fst (snd (merge_paths
     [(''/api/v1/settings'', [(''put'', 2::nat)]), (''/api/v1/assets'', [(''get'', 3)])]
     (fst (merge_paths
        [(''/api/v1/settings'', [(''put'', 2::nat)]), (''/api/v1/assets'', [(''get'', 3)])]
        [(''/api/v1/settings'', [(''get'', 1::nat)])])))))
     \<noteq> set (fst (snd (merge_paths
        [(''/api/v1/settings'', [(''put'', 2::nat)]), (''/api/v1/assets'', [(''get'', 3)])]
        [(''/api/v1/settings'', [(''get'', 1::nat)])])))"
  by (simp add: merge_paths_def merge_path_def Let_def)

section \<open>Properties of the prefix rewrite\<close>

lemma replace_first_prefix:
  "prefix old p \<Longrightarrow> replace_first old new p = new @ drop (length old) p"
  by (cases p) auto

lemma rewrite_loop_lookup:
  "map_of (fst (rewrite_loop old new ps (acc, fx))) k =
     (case map_of (rev (map (\<lambda>(p, d). (if prefix old p then new @ drop (length old) p else p, d)) ps)) k of
        Some v \<Rightarrow> Some v | None \<Rightarrow> map_of acc k)"
proof (induction ps arbitrary: acc fx)
  case Nil then show ?case by simp
next
  case (Cons e ps)
  obtain p d where e: "e = (p, d)" by (cases e)
  show ?case
    using Cons.IH e
    by (auto simp: replace_first_prefix update_conv' map_add_def map_of_append split: option.splits)
qed

lemma rewrite_loop_fixed:
  "snd (rewrite_loop old new ps (acc, fx)) =
     fx @ map (\<lambda>p. (p, new @ drop (length old) p)) (filter (prefix old) (map fst ps))"
proof (induction ps arbitrary: acc fx)
  case Nil then show ?case by simp
next
  case (Cons e ps)
  obtain p d where e: "e = (p, d)" by (cases e)
  show ?case using Cons.IH e by (simp add: replace_first_prefix)
qed

text \<open>
  Claim C3, as the code has it. The rewrite knows no collision: under a key of the
  result is the path item of the last entry, in document order, whose renamed path is
  that key, so an entry whose new path is not shared keeps its item and an earlier
  entry with a shared new path loses its item; and \<^verbatim>\<open>fixed_endpoints\<close> lists every path
  that starts with the old prefix, with its new name.
\<close>

theorem rewrite_last_wins:
  "map_of (fst (rewrite_prefix old new ps)) k =
     map_of (rev (map (\<lambda>(p, d). (if prefix old p then new @ drop (length old) p else p, d)) ps)) k
   \<and> snd (rewrite_prefix old new ps) =
       map (\<lambda>p. (p, new @ drop (length old) p)) (filter (prefix old) (map fst ps))"
  using rewrite_loop_lookup[of old new ps "[]" "[]" k] rewrite_loop_fixed[of old new ps "[]" "[]"]
  by (simp add: rewrite_prefix_def split: option.splits)

text \<open>
  Claim C3 as it is stated fails when \<^verbatim>\<open>/api/v1/tax-accounts\<close> is already a path: the
  rename is logged as done, the old entry is gone, and of the two path items only the
  later one is left.
\<close>

theorem rewrite_collision_counterexample:
  "rewrite_prefix wrong_prefix correct_prefix
     [(''/api/v1/settings/tax-accounts'', [(''get'', 1::nat)]),
      (''/api/v1/tax-accounts'', [(''get'', 2)])]
   = ([(''/api/v1/tax-accounts'', [(''get'', 2)])],
      [(''/api/v1/settings/tax-accounts'', ''/api/v1/tax-accounts'')])"
  by (simp add: rewrite_prefix_def wrong_prefix_def correct_prefix_def)

section \<open>Properties of the pruners\<close>

lemma delete_filter: "AList.delete k al = filter (\<lambda>(m, _). m \<noteq> k) al"
  by (induction al) auto

lemma remove_incorrect_methods_filter:
  "fst (remove_incorrect_methods path cm ms (d, fx)) =
     filter (\<lambda>(m, _). \<not> (m \<in> set ms \<and> upper m \<notin> set cm)) d"
proof (induction ms arbitrary: d fx)
  case Nil
  then show ?case by simp
next
  case (Cons m ms)
  show ?case
  proof (cases "upper m \<in> set cm")
    case True
    with Cons.IH[of d fx] show ?thesis
      by (auto intro!: filter_cong)
  next
    case False
    with Cons.IH[of "AList.delete m d" "fx @ [upper m @ '' '' @ path]"] show ?thesis
      by (auto simp: delete_filter intro!: filter_cong)
  qed
qed

lemma remove_incorrect_methods_all:
  "fst (remove_incorrect_methods path cm (map fst d) (d, fx)) =
     filter (\<lambda>(m, _). upper m \<in> set cm) d"
  unfolding remove_incorrect_methods_filter
  by (rule filter_cong) (force+)

lemma fix_settings_loop_map:
  "fst (fix_settings_loop ps fx) =
       map (\<lambda>(path, path_data).
              (path,
               if prefix ''/api/v1/settings'' path
               then (case map_of correct_settings_endpoints path of
                       Some correct_methods \<Rightarrow>
                         filter (\<lambda>(method, _). upper method \<in> set correct_methods) path_data
                     | None \<Rightarrow> path_data)
               else path_data)) ps"
proof (induction ps arbitrary: fx)
  case Nil
  then show ?case by simp
next
  case (Cons e ps)
  obtain path d where e: "e = (path, d)" by (cases e)
  show ?case
  proof (cases "prefix ''/api/v1/settings'' path")
    case False
    obtain r f where r: "fix_settings_loop ps fx = (r, f)" by (cases "fix_settings_loop ps fx")
    with Cons.IH[of fx] e False show ?thesis by simp
  next
    case True
    show ?thesis
    proof (cases "map_of correct_settings_endpoints path")
      case None
      obtain r f where r: "fix_settings_loop ps fx = (r, f)" by (cases "fix_settings_loop ps fx")
      with Cons.IH[of fx] e True None show ?thesis by simp
    next
      case (Some cm)
      obtain d' fx' where rm: "remove_incorrect_methods path cm (map fst d) (d, fx) = (d', fx')"
        by (cases "remove_incorrect_methods path cm (map fst d) (d, fx)")
      with remove_incorrect_methods_all[of path cm d fx]
      have d': "d' = filter (\<lambda>(m, _). upper m \<in> set cm) d" by simp
      obtain r f where r: "fix_settings_loop ps fx' = (r, f)" by (cases "fix_settings_loop ps fx'")
      with Cons.IH[of fx'] e True Some rm d' show ?thesis by simp
    qed
  qed
qed

text \<open>
  Claim C4, as the code has it. The method pruner never removes a path: the paths of
  the result are the paths of the input, in the same order, and each settings path of
  the table keeps exactly its methods that the table allows, which may be none.
\<close>

theorem fix_settings_keeps_paths:
  "map fst (fst (fix_settings_loop ps fx)) = map fst ps
   \<and> fst (fix_settings_loop ps fx) =
       map (\<lambda>(path, path_data).
              (path,
               if prefix ''/api/v1/settings'' path
               then (case map_of correct_settings_endpoints path of
                       Some correct_methods \<Rightarrow>
                         filter (\<lambda>(method, _). upper method \<in> set correct_methods) path_data
                     | None \<Rightarrow> path_data)
               else path_data)) ps"
proof
  show "map fst (fst (fix_settings_loop ps fx)) = map fst ps"
    unfolding fix_settings_loop_map by (induction ps) auto
  show "fst (fix_settings_loop ps fx) =
       map (\<lambda>(path, path_data).
              (path,
               if prefix ''/api/v1/settings'' path
               then (case map_of correct_settings_endpoints path of
                       Some correct_methods \<Rightarrow>
                         filter (\<lambda>(method, _). upper method \<in> set correct_methods) path_data
                     | None \<Rightarrow> path_data)
               else path_data)) ps"
    by (rule fix_settings_loop_map)
qed

text \<open>
  Claim C4 as it is stated fails when the only method of a path is pruned: the path
  stays in the document, with an empty path item.
\<close>

lemma upper_get: "upper ''get'' = ''GET''"
  by code_simp

theorem empty_path_item_counterexample:
  "fix_settings_paths [(''/api/v1/settings/company'', [(''get'', 1::nat)])]
   = Some ([(''/api/v1/settings/company'', [])], [''GET /api/v1/settings/company''])"
  by (simp add: fix_settings_paths_def correct_settings_endpoints_def upper_get)

lemma remove_endpoints_absent:
  "\<forall>e \<in> set targets. e \<notin> fst ` set ps \<Longrightarrow> remove_endpoints targets (ps, n) = (ps, n)"
  by (induction targets) auto

lemma remove_invalid_absent:
  "\<forall>e \<in> set targets. e \<notin> fst ` set ps \<Longrightarrow> remove_invalid targets (ps, r) = (ps, r)"
  by (induction targets) auto

lemma dom_delete: "fst ` set (AList.delete k al) = fst ` set al - {k}"
  by (induction al) auto

lemma remove_endpoints_keys:
  "fst ` set (fst (remove_endpoints targets (ps, n))) = fst ` set ps - set targets"
proof (induction targets arbitrary: ps n)
  case Nil
  then show ?case by simp
next
  case (Cons e targets)
  show ?case
  proof (cases "e \<in> fst ` set ps")
    case True
    with Cons.IH[of "AList.delete e ps" "n + 1"] show ?thesis
      by (auto simp: dom_delete)
  next
    case False
    with Cons.IH[of ps n] show ?thesis by auto
  qed
qed

lemma remove_invalid_keys:
  "fst ` set (fst (remove_invalid targets (ps, r))) = fst ` set ps - set targets"
proof (induction targets arbitrary: ps r)
  case Nil
  then show ?case by simp
next
  case (Cons e targets)
  show ?case
  proof (cases "e \<in> fst ` set ps")
    case True
    with Cons.IH[of "AList.delete e ps" "r @ [e]"] show ?thesis
      by (auto simp: dom_delete)
  next
    case False
    with Cons.IH[of ps r] show ?thesis by auto
  qed
qed

lemma remove_endpoints_document_absent:
  assumes "\<forall>e \<in> set targets. e \<notin> fst ` set (case doc_paths d of None \<Rightarrow> [] | Some ps \<Rightarrow> ps)"
  shows "remove_endpoints_document targets d = (d, 0)"
proof (cases "doc_paths d")
  case None
  then show ?thesis by (simp add: remove_endpoints_document_def)
next
  case (Some ps)
  with assms have "remove_endpoints targets (ps, 0) = (ps, 0)"
    by (intro remove_endpoints_absent) simp
  moreover from Some have "d\<lparr>doc_paths := Some ps\<rparr> = d" by (cases d) simp
  ultimately show ?thesis using Some by (simp add: remove_endpoints_document_def)
qed

lemma remove_invalid_document_absent:
  assumes "\<forall>e \<in> set targets. e \<notin> fst ` set (case doc_paths d of None \<Rightarrow> [] | Some ps \<Rightarrow> ps)"
  shows "remove_invalid_document targets d = (d, [])"
proof -
  from assms
  have r: "remove_invalid targets (case doc_paths d of None \<Rightarrow> [] | Some ps \<Rightarrow> ps, [])
             = (case doc_paths d of None \<Rightarrow> [] | Some ps \<Rightarrow> ps, [])"
    by (rule remove_invalid_absent)
  show ?thesis
  proof (cases "doc_paths d")
    case None
    with r show ?thesis by (simp add: remove_invalid_document_def)
  next
    case (Some ps)
    then have "d\<lparr>doc_paths := Some ps\<rparr> = d" by (cases d) simp
    with r Some show ?thesis by (simp add: remove_invalid_document_def)
  qed
qed

lemma remove_endpoints_document_keys:
  "fst ` set (case doc_paths (fst (remove_endpoints_document targets d)) of
                None \<Rightarrow> [] | Some ps \<Rightarrow> ps)
   = fst ` set (case doc_paths d of None \<Rightarrow> [] | Some ps \<Rightarrow> ps) - set targets"
proof (cases "doc_paths d")
  case None
  then show ?thesis by (simp add: remove_endpoints_document_def)
next
  case (Some ps)
  obtain ps' n where r: "remove_endpoints targets (ps, 0) = (ps', n)"
    by (cases "remove_endpoints targets (ps, 0)")
  with remove_endpoints_keys[of targets ps 0] Some show ?thesis
    by (simp add: remove_endpoints_document_def)
qed

lemma remove_invalid_document_keys:
  "fst ` set (case doc_paths (fst (remove_invalid_document targets d)) of
                None \<Rightarrow> [] | Some ps \<Rightarrow> ps)
   = fst ` set (case doc_paths d of None \<Rightarrow> [] | Some ps \<Rightarrow> ps) - set targets"
proof (cases "doc_paths d")
  case None
  then show ?thesis by (simp add: remove_invalid_document_def split: prod.splits)
next
  case (Some ps)
  obtain ps' r where r: "remove_invalid targets (ps, []) = (ps', r)"
    by (cases "remove_invalid targets (ps, [])")
  with remove_invalid_keys[of targets ps "[]"] Some show ?thesis
    by (simp add: remove_invalid_document_def)
qed

text \<open>
  Claim C5. When no target is a path of the document, both pruning functions return the
  document they were given and count no removal (the counter stays 0, the list of
  removed endpoints stays empty). Pruning again with the same targets is therefore
  safe: after a run no target is left, and the second run changes nothing and removes
  nothing.
\<close>

theorem prune_absent_noop:
  "((\<forall>e \<in> set targets. e \<notin> fst ` set (case doc_paths d of None \<Rightarrow> [] | Some ps \<Rightarrow> ps)) \<longrightarrow>
      remove_endpoints_document targets d = (d, 0)
      \<and> remove_invalid_document targets d = (d, []))
   \<and> remove_endpoints_document targets (fst (remove_endpoints_document targets d))
       = (fst (remove_endpoints_document targets d), 0)
   \<and> remove_invalid_document targets (fst (remove_invalid_document targets d))
       = (fst (remove_invalid_document targets d), [])"
proof (intro conjI impI)
  assume a: "\<forall>e \<in> set targets. e \<notin> fst ` set (case doc_paths d of None \<Rightarrow> [] | Some ps \<Rightarrow> ps)"
  from remove_endpoints_document_absent[OF a]
  show "remove_endpoints_document targets d = (d, 0)" .
  from remove_invalid_document_absent[OF a]
  show "remove_invalid_document targets d = (d, [])" .
next
  show "remove_endpoints_document targets (fst (remove_endpoints_document targets d))
       = (fst (remove_endpoints_document targets d), 0)"
  proof (rule remove_endpoints_document_absent)
    show "\<forall>e \<in> set targets.
            e \<notin> fst ` set (case doc_paths (fst (remove_endpoints_document targets d)) of
                              None \<Rightarrow> [] | Some ps \<Rightarrow> ps)"
      unfolding remove_endpoints_document_keys by blast
  qed
next
  show "remove_invalid_document targets (fst (remove_invalid_document targets d))
       = (fst (remove_invalid_document targets d), [])"
  proof (rule remove_invalid_document_absent)
    show "\<forall>e \<in> set targets.
            e \<notin> fst ` set (case doc_paths (fst (remove_invalid_document targets d)) of
                              None \<Rightarrow> [] | Some ps \<Rightarrow> ps)"
      unfolding remove_invalid_document_keys by blast
  qed
qed

text \<open>
  The theorem at the specification's example: the target \<^verbatim>\<open>/not/present\<close> and a
  document whose only path is \<^verbatim>\<open>/api/v1/settings\<close>.
\<close>

theorem prune_absent_noop_witness:
  "remove_endpoints_document [''/not/present'']
     \<lparr>doc_paths = Some [(''/api/v1/settings'', [(''get'', 1::nat)])], doc_tags = None,
      doc_definitions = (None :: (string \<times> nat) list option), doc_info = None,
      doc_other = []\<rparr>
   = (\<lparr>doc_paths = Some [(''/api/v1/settings'', [(''get'', 1::nat)])], doc_tags = None,
       doc_definitions = None, doc_info = None, doc_other = []\<rparr>, 0)
   \<and> remove_invalid_document [''/not/present'']
     \<lparr>doc_paths = Some [(''/api/v1/settings'', [(''get'', 1::nat)])], doc_tags = None,
      doc_definitions = (None :: (string \<times> nat) list option), doc_info = None,
      doc_other = []\<rparr>
   = (\<lparr>doc_paths = Some [(''/api/v1/settings'', [(''get'', 1::nat)])], doc_tags = None,
       doc_definitions = None, doc_info = None, doc_other = []\<rparr>, [])"
proof -
  let ?d = "\<lparr>doc_paths = Some [(''/api/v1/settings'', [(''get'', 1::nat)])], doc_tags = None,
      doc_definitions = (None :: (string \<times> nat) list option), doc_info = None,
      doc_other = []\<rparr>"
  have h: "\<forall>e \<in> set [''/not/present''].
             e \<notin> fst ` set (case doc_paths ?d of None \<Rightarrow> [] | Some ps \<Rightarrow> ps)"
    by simp
  from prune_absent_noop[of "[''/not/present'']" ?d] h
  show ?thesis by blast
qed

section \<open>Tags and definitions\<close>

lemma append_missing_tags_filter:
  "append_missing_tags ex new tags = tags @ filter (\<lambda>t. tag_name t \<notin> ex) new"
  by (induction new arbitrary: tags) auto

lemma add_definitions_lookup:
  "map_of (add_definitions new defs) k =
     (case map_of (rev new) k of Some v \<Rightarrow> Some v | None \<Rightarrow> map_of defs k)"
proof (induction new arbitrary: defs)
  case Nil
  then show ?case by simp
next
  case (Cons e new)
  obtain a b where e: "e = (a, b)" by (cases e)
  with Cons.IH[of "AList.update a b defs"] show ?case
    by (auto simp: update_conv' map_of_append map_add_def split: option.splits)
qed

text \<open>
  Claim C6, as the code has it. Tags follow the presence rule: the declared tags stay as
  they are, and only new tags whose name is not declared are appended. Definitions do
  not: every entry of \<^verbatim>\<open>new_definitions\<close> is written, so a key of the patch ends up with
  the patch's value, and only keys the patch does not have keep the base's entry.
\<close>

theorem tags_base_wins_definitions_overwritten:
  "add_missing_tags new_tags tags
     = tags @ filter (\<lambda>t. tag_name t \<notin> set (map tag_name tags)) new_tags
   \<and> add_invoice_types_tag tags
     = (if ''Invoice Types'' \<in> set (map tag_name tags) then tags else tags @ [invoice_types_tag])
   \<and> map_of (add_definitions new_definitions definitions) k
     = (case map_of (rev new_definitions) k of
          Some v \<Rightarrow> Some v
        | None \<Rightarrow> map_of definitions k)"
proof (intro conjI)
  show "add_missing_tags new_tags tags
     = tags @ filter (\<lambda>t. tag_name t \<notin> set (map tag_name tags)) new_tags"
    by (simp add: add_missing_tags_def append_missing_tags_filter)
  have "list_ex (\<lambda>t. tag_name t = ''Invoice Types'') tags
          \<longleftrightarrow> ''Invoice Types'' \<in> set (map tag_name tags)"
    by (induction tags) auto
  then show "add_invoice_types_tag tags
     = (if ''Invoice Types'' \<in> set (map tag_name tags) then tags else tags @ [invoice_types_tag])"
    by (simp add: add_invoice_types_tag_def)
  show "map_of (add_definitions new_definitions definitions) k
     = (case map_of (rev new_definitions) k of
          Some v \<Rightarrow> Some v
        | None \<Rightarrow> map_of definitions k)"
    by (rule add_definitions_lookup)
qed

text \<open>
  Claim C6 as it is stated fails for a definition the document already has: the saved
  document holds the patch's value.
\<close>

theorem definitions_base_wins_counterexample:
  "doc_definitions
     (add_invoice_types_document [] [(''models.InvoiceTypeResponse'', 2::nat)]
        \<lparr>doc_paths = Some ([] :: nat paths), doc_tags = Some [],
         doc_definitions = Some [(''models.InvoiceTypeResponse'', 1)],
         doc_info = None, doc_other = []\<rparr>)
   = Some [(''models.InvoiceTypeResponse'', 2)]"
  by (simp add: add_invoice_types_document_def)

section \<open>Tags of operations\<close>

lemma ensure_tag_fst: "fst (ensure_tag t d n) = fst (ensure_tag t d 0)"
  by (cases "(t, d, n)" rule: ensure_tag.cases) auto

lemma ensure_tag_methods_map:
  "fst (ensure_tag_methods t methods n) = map (\<lambda>(m, d). (m, fst (ensure_tag t d 0))) methods"
proof (induction methods arbitrary: n)
  case Nil
  then show ?case by simp
next
  case (Cons e methods)
  obtain m d where e: "e = (m, d)" by (cases e)
  obtain d' n' where r: "ensure_tag t d n = (d', n')" by (cases "ensure_tag t d n")
  obtain rest' n'' where rr: "ensure_tag_methods t methods n' = (rest', n'')"
    by (cases "ensure_tag_methods t methods n'")
  from r ensure_tag_fst[of t d n] have "d' = fst (ensure_tag t d 0)" by simp
  with Cons.IH[of n'] e r rr show ?case by simp
qed

lemma fix_display_tags_map:
  "fst (fix_display_tags ps (a, s)) =
     map (\<lambda>(path, methods).
            (path,
             if is_substring ''/assets'' path
             then map (\<lambda>(m, d). (m, fst (ensure_tag ''Assets'' d 0))) methods
             else if is_substring ''/settings'' path
             then map (\<lambda>(m, d). (m, fst (ensure_tag ''Settings'' d 0))) methods
             else methods)) ps"
proof (induction ps arbitrary: a s)
  case Nil
  then show ?case by simp
next
  case (Cons e ps)
  obtain path methods where e: "e = (path, methods)" by (cases e)
  show ?case
  proof (cases "is_substring ''/assets'' path")
    case True
    obtain ms' a' where r: "ensure_tag_methods ''Assets'' methods a = (ms', a')"
      by (cases "ensure_tag_methods ''Assets'' methods a")
    obtain rest' a'' s'' where rr: "fix_display_tags ps (a', s) = (rest', a'', s'')"
      by (cases "fix_display_tags ps (a', s)")
    from r ensure_tag_methods_map[of "''Assets''" methods a]
    have "ms' = map (\<lambda>(m, d). (m, fst (ensure_tag ''Assets'' d 0))) methods" by simp
    with Cons.IH[of a' s] e True r rr show ?thesis by simp
  next
    case False
    show ?thesis
    proof (cases "is_substring ''/settings'' path")
      case True
      obtain ms' s' where r: "ensure_tag_methods ''Settings'' methods s = (ms', s')"
        by (cases "ensure_tag_methods ''Settings'' methods s")
      obtain rest' a'' s'' where rr: "fix_display_tags ps (a, s') = (rest', a'', s'')"
        by (cases "fix_display_tags ps (a, s')")
      from r ensure_tag_methods_map[of "''Settings''" methods s]
      have "ms' = map (\<lambda>(m, d). (m, fst (ensure_tag ''Settings'' d 0))) methods" by simp
      with Cons.IH[of a s'] e False True r rr show ?thesis by simp
    next
      case nf: False
      obtain rest' a'' s'' where rr: "fix_display_tags ps (a, s) = (rest', a'', s'')"
        by (cases "fix_display_tags ps (a, s)")
      with Cons.IH[of a s] e False nf show ?thesis by simp
    qed
  qed
qed

text \<open>
  Claim C7, as the code has it. On a path that contains \<^verbatim>\<open>/assets\<close> (or else
  \<^verbatim>\<open>/settings\<close>) an operation is left as it is only when its tags already contain the
  module's tag. With other tags, the module's tag is appended to them and the operation
  is counted as fixed; with no tags or an empty list, the tags become the module's tag
  alone. Operations on all other paths are left as they are, and no path or method is
  added or removed by the loop.
\<close>

theorem tagged_operation_gets_module_tag:
  "(ts \<noteq> [] \<and> t \<in> set ts \<longrightarrow>
      ensure_tag t (Operation (Some ts) others) n = (Operation (Some ts) others, n))
   \<and> (ts \<noteq> [] \<and> t \<notin> set ts \<longrightarrow>
      ensure_tag t (Operation (Some ts) others) n = (Operation (Some (ts @ [t])) others, n + 1))
   \<and> ensure_tag t (Operation None others) n = (Operation (Some [t]) others, n + 1)
   \<and> ensure_tag t (Operation (Some []) others) n = (Operation (Some [t]) others, n + 1)
   \<and> fst (fix_display_tags ps (a, s)) =
       map (\<lambda>(path, methods).
            (path,
             if is_substring ''/assets'' path
             then map (\<lambda>(m, d). (m, fst (ensure_tag ''Assets'' d 0))) methods
             else if is_substring ''/settings'' path
             then map (\<lambda>(m, d). (m, fst (ensure_tag ''Settings'' d 0))) methods
             else methods)) ps"
  using fix_display_tags_map[of ps a s] by simp

text \<open>
  The theorem at an operation tagged \<^verbatim>\<open>Assets\<close>, which stays, and at one tagged
  \<^verbatim>\<open>Inventory\<close>, which is extended.
\<close>

theorem tagged_operation_gets_module_tag_witness:
  "([''Assets''] \<noteq> [] \<and> ''Assets'' \<in> set [''Assets''])
   \<and> ensure_tag ''Assets'' (Operation (Some [''Assets'']) ([] :: (string \<times> nat) list)) 0
       = (Operation (Some [''Assets'']) [], 0)
   \<and> ([''Inventory''] \<noteq> [] \<and> ''Assets'' \<notin> set [''Inventory''])
   \<and> ensure_tag ''Assets'' (Operation (Some [''Inventory'']) ([] :: (string \<times> nat) list)) 0
       = (Operation (Some [''Inventory'', ''Assets'']) [], 1)"
proof -
  have h1: "[''Assets''] \<noteq> [] \<and> ''Assets'' \<in> set [''Assets'']" by simp
  have h2: "[''Inventory''] \<noteq> [] \<and> ''Assets'' \<notin> set [''Inventory'']" by simp
  from tagged_operation_gets_module_tag[of "[''Assets'']" "''Assets''" "[] :: (string \<times> nat) list" 0 "[]" 0 0] h1
  have a: "ensure_tag ''Assets'' (Operation (Some [''Assets'']) ([] :: (string \<times> nat) list)) 0
       = (Operation (Some [''Assets'']) [], 0)" by blast
  from tagged_operation_gets_module_tag[of "[''Inventory'']" "''Assets''" "[] :: (string \<times> nat) list" 0 "[]" 0 0] h2
  have b: "ensure_tag ''Assets'' (Operation (Some [''Inventory'']) ([] :: (string \<times> nat) list)) 0
       = (Operation (Some ([''Inventory''] @ [''Assets''])) [], 0 + 1)" by blast
  from a b h1 h2 show ?thesis by simp
qed

text \<open>
  Claim C7 as it is stated fails for an operation under \<^verbatim>\<open>/api/v1/assets\<close> whose tags are
  \<^verbatim>\<open>["Inventory"]\<close>: the loop extends them.
\<close>

theorem tagged_operation_untouched_counterexample:
  "fix_display_tags
     [(''/api/v1/assets'', [(''get'', Operation (Some [''Inventory'']) ([] :: (string \<times> nat) list))])]
     (0, 0)
   = ([(''/api/v1/assets'', [(''get'', Operation (Some [''Inventory'', ''Assets'']) [])])], 1, 0)"
  by simp

section \<open>Backups and writes\<close>

lemma cleanup_run_no_match:
  assumes "fs swagger_file = Some (Json d)"
    and "\<forall>e \<in> set targets. e \<notin> fst ` set (case doc_paths d of None \<Rightarrow> [] | Some ps \<Rightarrow> ps)"
  shows "cleanup_run targets sfx now fs = (True, fs)"
  using assms remove_invalid_document_absent[OF assms(2)]
  by (simp add: cleanup_run_def)

lemma filter_prefix_empty:
  "\<forall>p \<in> fst ` set ps. \<not> prefix w p \<Longrightarrow> filter (prefix w) (map fst ps) = []"
  by (induction ps) auto

text \<open>
  Claim C8, evaluated on the code. Both cleanup scripts delete from the loaded
  document and write the backup afterwards, from the same object: for a document that
  holds a target path, the backup file holds the document without that path, not the
  document that was on disk.
\<close>

theorem backup_holds_modified_document:
  "snd (cleanup_swagger ''20250101_120000''
     [swagger_file \<mapsto> Json \<lparr>doc_paths = Some [(''/api/v1/settings/accounting'', [(''get'', 1::nat)]),
          (''/api/v1/settings'', [(''get'', 2)])],
        doc_tags = None, doc_definitions = (None :: (string \<times> nat) list option), doc_info = None, doc_other = []\<rparr>])
     (swagger_file @ ''.backup_cleanup_'' @ ''20250101_120000'')
   = Some (Json \<lparr>doc_paths = Some [(''/api/v1/settings'', [(''get'', 2)])],
        doc_tags = None, doc_definitions = None, doc_info = None, doc_other = []\<rparr>)
   \<and> snd (cleanup_invalid_tax_accounts ''20250101_120000''
     [swagger_file \<mapsto> Json \<lparr>doc_paths = Some [(''/api/v1/tax-accounts/all'', [(''get'', 1::nat)]),
          (''/api/v1/tax-accounts'', [(''get'', 2)])],
        doc_tags = None, doc_definitions = (None :: (string \<times> nat) list option), doc_info = None, doc_other = []\<rparr>])
     (swagger_file @ ''.backup_cleanup_tax_accounts_'' @ ''20250101_120000'')
   = Some (Json \<lparr>doc_paths = Some [(''/api/v1/tax-accounts'', [(''get'', 2)])],
        doc_tags = None, doc_definitions = None, doc_info = None, doc_other = []\<rparr>)"
  by (simp add: cleanup_swagger_def cleanup_invalid_tax_accounts_def cleanup_run_def
        remove_invalid_document_def invalid_endpoints_def invalid_tax_accounts_endpoints_def Let_def)

text \<open>
  Claim C10. When the file loads and no target path is in the document, a run of
  \<^verbatim>\<open>cleanup_swagger\<close>, of \<^verbatim>\<open>cleanup_invalid_tax_accounts\<close> or of
  \<^verbatim>\<open>fix_tax_accounts_endpoints\<close> returns \<open>True\<close> and leaves the file system as it was:
  the document is not rewritten and no backup file appears.
\<close>

theorem no_match_no_write:
  assumes "fs swagger_file = Some (Json d)"
  shows "((\<forall>e \<in> set invalid_endpoints.
             e \<notin> fst ` set (case doc_paths d of None \<Rightarrow> [] | Some ps \<Rightarrow> ps))
          \<longrightarrow> cleanup_swagger now fs = (True, fs))
       \<and> ((\<forall>e \<in> set invalid_tax_accounts_endpoints.
             e \<notin> fst ` set (case doc_paths d of None \<Rightarrow> [] | Some ps \<Rightarrow> ps))
          \<longrightarrow> cleanup_invalid_tax_accounts now fs = (True, fs))
       \<and> ((\<forall>p \<in> fst ` set (case doc_paths d of None \<Rightarrow> [] | Some ps \<Rightarrow> ps).
             \<not> prefix wrong_prefix p)
          \<longrightarrow> fix_tax_accounts_endpoints now fs = (True, fs))"
proof (intro conjI impI)
  assume "\<forall>e \<in> set invalid_endpoints.
             e \<notin> fst ` set (case doc_paths d of None \<Rightarrow> [] | Some ps \<Rightarrow> ps)"
  from cleanup_run_no_match[where fs=fs and d=d, OF assms this] show "cleanup_swagger now fs = (True, fs)"
    by (simp add: cleanup_swagger_def)
next
  assume "\<forall>e \<in> set invalid_tax_accounts_endpoints.
             e \<notin> fst ` set (case doc_paths d of None \<Rightarrow> [] | Some ps \<Rightarrow> ps)"
  from cleanup_run_no_match[where fs=fs and d=d, OF assms this] show "cleanup_invalid_tax_accounts now fs = (True, fs)"
    by (simp add: cleanup_invalid_tax_accounts_def)
next
  assume "\<forall>p \<in> fst ` set (case doc_paths d of None \<Rightarrow> [] | Some ps \<Rightarrow> ps).
             \<not> prefix wrong_prefix p"
  from filter_prefix_empty[OF this] assms show "fix_tax_accounts_endpoints now fs = (True, fs)"
    by (simp add: fix_tax_accounts_endpoints_def Let_def)
qed

text \<open>The theorem at a document whose only path is \<^verbatim>\<open>/api/v1/settings\<close>.\<close>

theorem no_match_no_write_witness:
  "cleanup_swagger ''20250101_120000''
     [swagger_file \<mapsto> Json \<lparr>doc_paths = Some [(''/api/v1/settings'', [(''get'', 1::nat)])],
        doc_tags = None, doc_definitions = (None :: (string \<times> nat) list option), doc_info = None, doc_other = []\<rparr>]
   = (True, [swagger_file \<mapsto> Json \<lparr>doc_paths = Some [(''/api/v1/settings'', [(''get'', 1::nat)])],
        doc_tags = None, doc_definitions = None, doc_info = None, doc_other = []\<rparr>])
   \<and> cleanup_invalid_tax_accounts ''20250101_120000''
     [swagger_file \<mapsto> Json \<lparr>doc_paths = Some [(''/api/v1/settings'', [(''get'', 1::nat)])],
        doc_tags = None, doc_definitions = (None :: (string \<times> nat) list option), doc_info = None, doc_other = []\<rparr>]
   = (True, [swagger_file \<mapsto> Json \<lparr>doc_paths = Some [(''/api/v1/settings'', [(''get'', 1::nat)])],
        doc_tags = None, doc_definitions = None, doc_info = None, doc_other = []\<rparr>])
   \<and> fix_tax_accounts_endpoints ''20250101_120000''
     [swagger_file \<mapsto> Json \<lparr>doc_paths = Some [(''/api/v1/settings'', [(''get'', 1::nat)])],
        doc_tags = None, doc_definitions = (None :: (string \<times> nat) list option), doc_info = None, doc_other = []\<rparr>]
   = (True, [swagger_file \<mapsto> Json \<lparr>doc_paths = Some [(''/api/v1/settings'', [(''get'', 1::nat)])],
        doc_tags = None, doc_definitions = None, doc_info = None, doc_other = []\<rparr>])"
proof -
  let ?d = "\<lparr>doc_paths = Some [(''/api/v1/settings'', [(''get'', 1::nat)])],
        doc_tags = None, doc_definitions = (None :: (string \<times> nat) list option), doc_info = None, doc_other = []\<rparr>"
  have f: "[swagger_file \<mapsto> Json ?d] swagger_file = Some (Json ?d)" by simp
  have h1: "\<forall>e \<in> set invalid_endpoints.
             e \<notin> fst ` set (case doc_paths ?d of None \<Rightarrow> [] | Some ps \<Rightarrow> ps)"
    by (simp add: invalid_endpoints_def)
  have h2: "\<forall>e \<in> set invalid_tax_accounts_endpoints.
             e \<notin> fst ` set (case doc_paths ?d of None \<Rightarrow> [] | Some ps \<Rightarrow> ps)"
    by (simp add: invalid_tax_accounts_endpoints_def)
  have h3: "\<forall>p \<in> fst ` set (case doc_paths ?d of None \<Rightarrow> [] | Some ps \<Rightarrow> ps).
             \<not> prefix wrong_prefix p"
    by (simp add: wrong_prefix_def)
  from no_match_no_write[where fs="[swagger_file \<mapsto> Json ?d]" and d="?d"
      and now="''20250101_120000''", OF f] h1 h2 h3 show ?thesis
    by blast
qed

section \<open>Top-level metadata\<close>

lemma remove_endpoints_document_frame:
  "doc_other (fst (remove_endpoints_document targets d)) = doc_other d
   \<and> doc_definitions (fst (remove_endpoints_document targets d)) = doc_definitions d
   \<and> doc_tags (fst (remove_endpoints_document targets d)) = doc_tags d
   \<and> doc_info (fst (remove_endpoints_document targets d)) = doc_info d"
  by (simp add: remove_endpoints_document_def split: option.splits prod.splits)

lemma remove_unused_document_unfold:
  "fst (remove_unused_document today d) =
     (fst (remove_endpoints_document unused_endpoints d))
       \<lparr>doc_info :=
          Some \<lparr>info_description =
                  Some ((case doc_info d of
                           None \<Rightarrow> []
                         | Some i \<Rightarrow> (case info_description i of None \<Rightarrow> [] | Some s \<Rightarrow> s))
                        @ cleanup_note today),
                info_other = (case doc_info d of None \<Rightarrow> [] | Some i \<Rightarrow> info_other i)\<rparr>\<rparr>"
proof -
  obtain pruned n where r: "remove_endpoints_document unused_endpoints d = (pruned, n)"
    by (cases "remove_endpoints_document unused_endpoints d")
  with remove_endpoints_document_frame[of unused_endpoints d]
  have i: "doc_info pruned = doc_info d" by simp
  show ?thesis
  proof (cases "doc_info d")
    case None
    with r i show ?thesis by (simp add: remove_unused_document_def)
  next
    case (Some b)
    with r i show ?thesis
      by (cases b) (simp add: remove_unused_document_def split: option.splits)
  qed
qed

text \<open>
  Claim C9, as the code has it. The merge and the prune leave the definitions, the
  other top-level keys and the other keys of \<^verbatim>\<open>info\<close> as they were, and the prune
  leaves the tags; but both write \<^verbatim>\<open>info.description\<close>: the merge appends a fixed
  sentence to a description that lacks the marker text, and the prune always appends
  its dated note, creating \<^verbatim>\<open>info\<close> when it is missing.
\<close>

theorem metadata_kept_description_targeted:
  "(merge_swagger_document d a = Some (d', cs, n) \<longrightarrow>
      doc_other d' = doc_other d
      \<and> doc_definitions d' = doc_definitions d
      \<and> doc_info d' =
          (case doc_info d of
             None \<Rightarrow> None
           | Some i \<Rightarrow>
               Some (i\<lparr>info_description :=
                 (case info_description i of
                    None \<Rightarrow> None
                  | Some s \<Rightarrow>
                      Some (if is_substring ''dengan fitur lengkap CRUD'' s then s
                            else s @ '' Termasuk endpoint CRUD lengkap untuk akun, produk, aset, kontak, user, dan pengaturan sistem.''))\<rparr>)))
   \<and> doc_other (fst (remove_unused_document today d)) = doc_other d
   \<and> doc_definitions (fst (remove_unused_document today d)) = doc_definitions d
   \<and> doc_tags (fst (remove_unused_document today d)) = doc_tags d
   \<and> doc_info (fst (remove_unused_document today d)) =
       Some \<lparr>info_description =
                Some ((case doc_info d of
                         None \<Rightarrow> []
                       | Some i \<Rightarrow> (case info_description i of None \<Rightarrow> [] | Some s \<Rightarrow> s))
                      @ cleanup_note today),
             info_other = (case doc_info d of None \<Rightarrow> [] | Some i \<Rightarrow> info_other i)\<rparr>"
proof (intro conjI impI)
  assume m: "merge_swagger_document d a = Some (d', cs, n)"
  then obtain patch where p: "doc_paths a = Some patch"
    by (auto simp: merge_swagger_document_def split: if_splits option.splits)
  obtain merged cs0 n0 where mp:
    "merge_paths patch (case doc_paths d of None \<Rightarrow> [] | Some ps \<Rightarrow> ps) = (merged, cs0, n0)"
    by (cases "merge_paths patch (case doc_paths d of None \<Rightarrow> [] | Some ps \<Rightarrow> ps)")
  from m p mp have d': "d' = d\<lparr>doc_paths := Some merged,
        doc_info := update_info_description (doc_info d),
        doc_tags := Some (add_missing_tags core_tags
                      (case doc_tags d of None \<Rightarrow> [] | Some ts \<Rightarrow> ts))\<rparr>"
    by (auto simp: merge_swagger_document_def split: if_splits)
  from d' show "doc_other d' = doc_other d" by simp
  from d' show "doc_definitions d' = doc_definitions d" by simp
  from d' show "doc_info d' =
          (case doc_info d of
             None \<Rightarrow> None
           | Some i \<Rightarrow>
               Some (i\<lparr>info_description :=
                 (case info_description i of
                    None \<Rightarrow> None
                  | Some s \<Rightarrow>
                      Some (if is_substring ''dengan fitur lengkap CRUD'' s then s
                            else s @ '' Termasuk endpoint CRUD lengkap untuk akun, produk, aset, kontak, user, dan pengaturan sistem.''))\<rparr>))"
    by (simp add: update_info_description_def split: option.splits)
next
  show "doc_other (fst (remove_unused_document today d)) = doc_other d"
    using remove_endpoints_document_frame[of unused_endpoints d]
    by (simp add: remove_unused_document_unfold)
  show "doc_definitions (fst (remove_unused_document today d)) = doc_definitions d"
    using remove_endpoints_document_frame[of unused_endpoints d]
    by (simp add: remove_unused_document_unfold)
  show "doc_tags (fst (remove_unused_document today d)) = doc_tags d"
    using remove_endpoints_document_frame[of unused_endpoints d]
    by (simp add: remove_unused_document_unfold)
  show "doc_info (fst (remove_unused_document today d)) =
       Some \<lparr>info_description =
                Some ((case doc_info d of
                         None \<Rightarrow> []
                       | Some i \<Rightarrow> (case info_description i of None \<Rightarrow> [] | Some s \<Rightarrow> s))
                      @ cleanup_note today),
             info_other = (case doc_info d of None \<Rightarrow> [] | Some i \<Rightarrow> info_other i)\<rparr>"
    by (simp add: remove_unused_document_unfold)
qed

text \<open>The theorem at a document whose description is \<^verbatim>\<open>API\<close>, merged with an empty patch.\<close>

theorem metadata_kept_description_targeted_witness:
  "merge_swagger_document
     \<lparr>doc_paths = Some ([] :: nat paths), doc_tags = Some core_tags,
      doc_definitions = Some [(''models.User'', 7::nat)],
      doc_info = Some \<lparr>info_description = Some ''API'', info_other = []\<rparr>, doc_other = []\<rparr>
     \<lparr>doc_paths = Some [], doc_tags = None, doc_definitions = None, doc_info = None,
      doc_other = []\<rparr>
   = Some (\<lparr>doc_paths = Some [], doc_tags = Some core_tags,
            doc_definitions = Some [(''models.User'', 7)],
            doc_info = Some \<lparr>info_description =
              Some ''API Termasuk endpoint CRUD lengkap untuk akun, produk, aset, kontak, user, dan pengaturan sistem.'',
              info_other = []\<rparr>,
            doc_other = []\<rparr>, [], 0)
   \<and> doc_definitions
        \<lparr>doc_paths = Some ([] :: nat paths), doc_tags = Some core_tags,
         doc_definitions = Some [(''models.User'', 7::nat)],
         doc_info = Some \<lparr>info_description =
           Some ''API Termasuk endpoint CRUD lengkap untuk akun, produk, aset, kontak, user, dan pengaturan sistem.'',
           info_other = []\<rparr>,
         doc_other = []\<rparr>
       = Some [(''models.User'', 7)]"
proof -
  have run: "merge_swagger_document
     \<lparr>doc_paths = Some ([] :: nat paths), doc_tags = Some core_tags,
      doc_definitions = Some [(''models.User'', 7::nat)],
      doc_info = Some \<lparr>info_description = Some ''API'', info_other = []\<rparr>, doc_other = []\<rparr>
     \<lparr>doc_paths = Some [], doc_tags = None, doc_definitions = None, doc_info = None,
      doc_other = []\<rparr>
   = Some (\<lparr>doc_paths = Some [], doc_tags = Some core_tags,
            doc_definitions = Some [(''models.User'', 7)],
            doc_info = Some \<lparr>info_description =
              Some ''API Termasuk endpoint CRUD lengkap untuk akun, produk, aset, kontak, user, dan pengaturan sistem.'',
              info_other = []\<rparr>,
            doc_other = []\<rparr>, [], 0)"
    by (simp add: merge_swagger_document_def is_empty_document_def merge_paths_def
          update_info_description_def add_missing_tags_def append_missing_tags_filter)
  from metadata_kept_description_targeted[THEN conjunct1, rule_format, OF run] run
  show ?thesis by simp
qed

text \<open>
  Claim C9 as it is stated fails on a document whose description is \<^verbatim>\<open>API\<close>: the merge
  and the prune both save another \<^verbatim>\<open>info\<close> block.
\<close>

theorem info_unchanged_counterexample:
  "map_option (\<lambda>r. doc_info (fst r))
     (merge_swagger_document
        \<lparr>doc_paths = Some ([] :: nat paths), doc_tags = Some [],
         doc_definitions = (None :: (string \<times> nat) list option),
         doc_info = Some \<lparr>info_description = Some ''API'', info_other = []\<rparr>, doc_other = []\<rparr>
        \<lparr>doc_paths = Some [], doc_tags = None, doc_definitions = None, doc_info = None,
         doc_other = []\<rparr>)
   = Some (Some \<lparr>info_description =
        Some ''API Termasuk endpoint CRUD lengkap untuk akun, produk, aset, kontak, user, dan pengaturan sistem.'',
        info_other = []\<rparr>)
   \<and> doc_info (fst (remove_unused_document ''2025-01-01''
        \<lparr>doc_paths = Some ([] :: nat paths), doc_tags = Some [],
         doc_definitions = (None :: (string \<times> nat) list option),
         doc_info = Some \<lparr>info_description = Some ''API'', info_other = []\<rparr>, doc_other = []\<rparr>))
   = Some \<lparr>info_description = Some (''API'' @ cleanup_note ''2025-01-01''), info_other = []\<rparr>"
  by (simp add: merge_swagger_document_def is_empty_document_def merge_paths_def
        update_info_description_def remove_unused_document_def remove_endpoints_document_def
        split: prod.splits)

end
